theory Spec2Isabelle
  imports Complex_Main
begin

section \<open>Common definitions\<close>

text \<open>
  Every fatal stop of the kernel is a value of \<open>error\<close>: a failed \<open>ASSERT\<close>, an
  index outside the \<open>dataSectors\<close> array, and a disk transfer on a sector that is
  negative or holds no file header.
\<close>

datatype error = AssertionFailed | OutOfBounds | BadSector

text \<open>
  C++ integer division truncates toward zero and the remainder takes the sign of the
  dividend. All sizes, offsets and ticks are modelled as unbounded \<open>int\<close>: the
  arithmetic of the two source files (differences of non-negative ticks, sizes that
  only shrink, products bounded by an offset) stays inside the 32-bit range whenever
  its inputs do.
\<close>

definition cdiv :: "int \<Rightarrow> int \<Rightarrow> int" where
  "cdiv a b = (if (a < 0) = (b < 0) then \<bar>a\<bar> div \<bar>b\<bar> else - (\<bar>a\<bar> div \<bar>b\<bar>))"

definition crem :: "int \<Rightarrow> int \<Rightarrow> int" where
  "crem a b = a - b * cdiv a b"

text \<open>
  Modelled from the spec: the macros \<open>divRoundUp\<close> and \<open>divRoundDown\<close> are not in the
  source files at hand. The spec reads them as \<open>ceil(n / s)\<close> and as integer division;
  they are written here as the usual kernel macros
  \<open>(n / s) + ((n % s) > 0 ? 1 : 0)\<close> and \<open>n / s\<close>, which is the ceiling for positive
  \<open>s\<close> (lemma \<open>divRoundUp_ceiling\<close>).
\<close>

definition divRoundUp :: "int \<Rightarrow> int \<Rightarrow> int" where
  "divRoundUp n s = cdiv n s + (if crem n s > 0 then 1 else 0)"

definition divRoundDown :: "int \<Rightarrow> int \<Rightarrow> int" where
  "divRoundDown n s = cdiv n s"

section \<open>File headers (filehdr.cc)\<close>

subsection \<open>Disk geometry\<close>

text \<open>
  The constants \<open>SectorSize\<close> and \<open>NumDirect\<close> are declared in headers that are not
  among the source files, so they are parameters of the model: every function of
  the file header takes the geometry as its argument \<open>g\<close>.
\<close>

record geometry =
  SectorSize :: int
  NumDirect :: int

text \<open>
  Modelled from the spec: the three thresholds are macros of a header that is not
  among the source files. The spec gives the capacity ladder as
  \<open>SingleSize = NumDirect * SectorSize\<close>, \<open>DoubleSize = NumDirect * SingleSize\<close>,
  \<open>TripleSize = NumDirect * DoubleSize\<close>.
\<close>

definition SingleSize :: "geometry \<Rightarrow> int" where
  "SingleSize g = NumDirect g * SectorSize g"

definition DoubleSize :: "geometry \<Rightarrow> int" where
  "DoubleSize g = NumDirect g * SingleSize g"

definition TripleSize :: "geometry \<Rightarrow> int" where
  "TripleSize g = NumDirect g * DoubleSize g"

text \<open>
  The span of one child of an interior node of \<open>fileSize\<close> bytes: the chunk of the
  branch that \<open>Allocate\<close> and \<open>ByteToSector\<close> take for that size.
\<close>

definition childSpan :: "geometry \<Rightarrow> int \<Rightarrow> int" where
  "childSpan g fileSize =
     (if fileSize > TripleSize g then TripleSize g
      else if fileSize > DoubleSize g then DoubleSize g else SingleSize g)"

text \<open>The values of the stock kernel: 128-byte sectors, 30 entries per header.\<close>

abbreviation stockGeometry :: geometry where
  "stockGeometry \<equiv> \<lparr>SectorSize = 128, NumDirect = 30\<rparr>"

subsection \<open>The free-sector bitmap\<close>

text \<open>
  Modelled from the spec: the bitmap class is an external collaborator with the
  interface \<open>FindAndSet() -> sector|None\<close>, \<open>Clear(sector)\<close>, \<open>Test(sector) -> bool\<close>,
  \<open>NumClear() -> count\<close>. A bitmap is the list of its bits (\<open>True\<close> = in use).
  \<open>FindAndSet\<close> takes the lowest clear bit; "none" is the integer \<open>-1\<close>, since the
  caller stores the result in an \<open>int\<close> array.
\<close>

type_synonym PersistentBitmap = "bool list"

definition NumClear :: "PersistentBitmap \<Rightarrow> int" where
  "NumClear freeMap = int (length (filter (\<lambda>b. \<not> b) freeMap))"

fun FindClear :: "PersistentBitmap \<Rightarrow> nat option" where
  "FindClear [] = None"
| "FindClear (b # bs) = (if b then map_option Suc (FindClear bs) else Some 0)"

definition FindAndSet :: "PersistentBitmap \<Rightarrow> int \<times> PersistentBitmap" where
  "FindAndSet freeMap =
     (case FindClear freeMap of
        None \<Rightarrow> (- 1, freeMap)
      | Some i \<Rightarrow> (int i, freeMap[i := True]))"

definition Test :: "PersistentBitmap \<Rightarrow> int \<Rightarrow> bool" where
  "Test freeMap which = (0 \<le> which \<and> which < int (length freeMap) \<and> freeMap ! nat which)"

definition Clear :: "PersistentBitmap \<Rightarrow> int \<Rightarrow> PersistentBitmap" where
  "Clear freeMap which = freeMap[nat which := False]"

subsection \<open>Headers and the disk\<close>

text \<open>
  \<open>FileHeader::FileHeader\<close> sets \<open>numBytes\<close> and \<open>numSectors\<close> to \<open>-1\<close> and fills
  \<open>dataSectors\<close> (an array of \<open>NumDirect\<close> integers) with \<open>-1\<close>.
\<close>

record FileHeader =
  numBytes :: int
  numSectors :: int
  dataSectors :: "int list"

definition newFileHeader :: "geometry \<Rightarrow> FileHeader" where
  "newFileHeader g =
     \<lparr>numBytes = - 1, numSectors = - 1, dataSectors = replicate (nat (NumDirect g)) (- 1)\<rparr>"

text \<open>
  Modelled from the spec: the disk is an external collaborator that transfers whole
  sectors. Only the sectors that hold file headers matter here, so the disk is a
  partial map from sector numbers to headers. A transfer on a negative sector
  number, or a fetch from a sector that holds no header, stops the model with
  \<open>BadSector\<close>.
\<close>

type_synonym SynchDisk = "int \<Rightarrow> FileHeader option"

definition WriteBack :: "SynchDisk \<Rightarrow> FileHeader \<Rightarrow> int \<Rightarrow> error + SynchDisk" where
  "WriteBack dsk hdr sector =
     (if sector < 0 then Inl BadSector else Inr (dsk(sector \<mapsto> hdr)))"

definition FetchFrom :: "SynchDisk \<Rightarrow> int \<Rightarrow> error + FileHeader" where
  "FetchFrom dsk sector =
     (if sector < 0 then Inl BadSector
      else case dsk sector of None \<Rightarrow> Inl BadSector | Some hdr \<Rightarrow> Inr hdr)"

text \<open>Reading \<open>dataSectors[k]\<close>; an index outside the array stops the model.\<close>

definition sectorAt :: "FileHeader \<Rightarrow> int \<Rightarrow> error + int" where
  "sectorAt hdr k =
     (if 0 \<le> k \<and> k < int (length (dataSectors hdr)) then Inr (dataSectors hdr ! nat k)
      else Inl OutOfBounds)"

subsection \<open>Allocate\<close>

text \<open>
  The leaf loop \<open>for (i = 0; i < numSectors; ++i) dataSectors[i] = freeMap->FindAndSet()\<close>,
  started at index \<open>i\<close>.
\<close>

function AllocateDirect ::
  "nat \<Rightarrow> FileHeader \<Rightarrow> PersistentBitmap \<Rightarrow> error + FileHeader \<times> PersistentBitmap" where
  "AllocateDirect i hdr freeMap =
     (if int i < numSectors hdr then
        (if length (dataSectors hdr) \<le> i then Inl OutOfBounds
         else case FindAndSet freeMap of (s, freeMap') \<Rightarrow>
           AllocateDirect (i + 1) (hdr\<lparr>dataSectors := (dataSectors hdr)[i := s]\<rparr>) freeMap')
      else Inr (hdr, freeMap))"
  by pat_completeness auto
termination
  by (relation "measure (\<lambda>(i, hdr, freeMap). nat (numSectors hdr) - i)") auto

text \<open>
  \<open>Allocate g hdr freeMap dsk fileSize\<close> is \<open>hdr->Allocate(freeMap, fileSize)\<close>; it returns
  the boolean result with the header, the bitmap and the disk as the call leaves
  them. The three interior branches of the source are the same loop with the chunk
  \<open>TripleSize\<close>, \<open>DoubleSize\<close> or \<open>SingleSize\<close>; \<open>AllocateChildren g chunk i fileSize\<close> is
  that loop at index \<open>i\<close> with \<open>fileSize\<close> bytes left. The result of the child's
  \<open>Allocate\<close> is not looked at, as in the source.
\<close>

function Allocate ::
    "geometry \<Rightarrow> FileHeader \<Rightarrow> PersistentBitmap \<Rightarrow> SynchDisk \<Rightarrow> int
      \<Rightarrow> error + bool \<times> FileHeader \<times> PersistentBitmap \<times> SynchDisk"
  and AllocateChildren ::
    "geometry \<Rightarrow> int \<Rightarrow> nat \<Rightarrow> int \<Rightarrow> FileHeader \<Rightarrow> PersistentBitmap \<Rightarrow> SynchDisk
      \<Rightarrow> error + FileHeader \<times> PersistentBitmap \<times> SynchDisk" where
  "Allocate g hdr0 freeMap dsk fileSize =
     (let hdr = hdr0\<lparr>numBytes := fileSize, numSectors := divRoundUp fileSize (SectorSize g)\<rparr> in
      if NumClear freeMap < numSectors hdr then Inr (False, hdr, freeMap, dsk)
      else if fileSize > TripleSize g then
        (case AllocateChildren g (TripleSize g) 0 fileSize hdr freeMap dsk of
           Inl e \<Rightarrow> Inl e
         | Inr (hdr', freeMap', dsk') \<Rightarrow> Inr (True, hdr', freeMap', dsk'))
      else if fileSize > DoubleSize g then
        (case AllocateChildren g (DoubleSize g) 0 fileSize hdr freeMap dsk of
           Inl e \<Rightarrow> Inl e
         | Inr (hdr', freeMap', dsk') \<Rightarrow> Inr (True, hdr', freeMap', dsk'))
      else if fileSize > SingleSize g then
        (case AllocateChildren g (SingleSize g) 0 fileSize hdr freeMap dsk of
           Inl e \<Rightarrow> Inl e
         | Inr (hdr', freeMap', dsk') \<Rightarrow> Inr (True, hdr', freeMap', dsk'))
      else
        (case AllocateDirect 0 hdr freeMap of
           Inl e \<Rightarrow> Inl e
         | Inr (hdr', freeMap') \<Rightarrow> Inr (True, hdr', freeMap', dsk)))"
| "AllocateChildren g chunk i fileSize hdr freeMap dsk =
     (if fileSize > 0 then
        (if length (dataSectors hdr) \<le> i then Inl OutOfBounds
         else case FindAndSet freeMap of (s, freeMap1) \<Rightarrow>
           (case Allocate g (newFileHeader g) freeMap1 dsk
                   (if fileSize > chunk then chunk else fileSize) of
              Inl e \<Rightarrow> Inl e
            | Inr (ok, child, freeMap2, dsk2) \<Rightarrow>
               (case WriteBack dsk2 child s of
                  Inl e \<Rightarrow> Inl e
                | Inr dsk3 \<Rightarrow>
                    AllocateChildren g chunk (i + 1) (fileSize - chunk)
                      (hdr\<lparr>dataSectors := (dataSectors hdr)[i := s]\<rparr>) freeMap2 dsk3)))
      else Inr (hdr, freeMap, dsk))"
  by pat_completeness auto
termination
  apply (relation "measures [
     (\<lambda>x. case x of
        Inl (g, hdr, freeMap, dsk, fileSize) \<Rightarrow>
          2 * nat (fileSize - min (SingleSize g) (min (DoubleSize g) (TripleSize g)))
      | Inr (g, chunk, i, fileSize, hdr, freeMap, dsk) \<Rightarrow>
          2 * nat (chunk - min (SingleSize g) (min (DoubleSize g) (TripleSize g))) + 1),
     (\<lambda>x. case x of
        Inl (g, hdr, freeMap, dsk, fileSize) \<Rightarrow> 0
      | Inr (g, chunk, i, fileSize, hdr, freeMap, dsk) \<Rightarrow> length (dataSectors hdr) - i)]")
       apply auto
  apply arith
  done

subsection \<open>Deallocate\<close>

text \<open>
  The leaf loop of \<open>Deallocate\<close>: \<open>ASSERT(freeMap->Test(dataSectors[i]))\<close>, then
  \<open>freeMap->Clear(dataSectors[i])\<close>.
\<close>

function DeallocateDirect ::
  "FileHeader \<Rightarrow> nat \<Rightarrow> PersistentBitmap \<Rightarrow> error + PersistentBitmap" where
  "DeallocateDirect hdr i freeMap =
     (if int i < numSectors hdr then
        (if length (dataSectors hdr) \<le> i then Inl OutOfBounds
         else if \<not> Test freeMap (dataSectors hdr ! i) then Inl AssertionFailed
         else DeallocateDirect hdr (i + 1) (Clear freeMap (dataSectors hdr ! i)))
      else Inr freeMap)"
  by pat_completeness auto
termination
  by (relation "measure (\<lambda>(hdr, i, freeMap). nat (numSectors hdr) - i)") auto

text \<open>
  \<open>Deallocate\<close> follows the headers it reads from the disk, so on a disk whose headers
  refer to each other in a cycle it does not return. The first argument bounds the
  depth of the recursion; \<open>None\<close> means the bound was reached. The interior branch is
  the single test \<open>numBytes > SingleSize\<close> with the loop bound
  \<open>divRoundUp(numSectors, NumDirect)\<close>.
\<close>

function Deallocate ::
    "nat \<Rightarrow> geometry \<Rightarrow> SynchDisk \<Rightarrow> FileHeader \<Rightarrow> PersistentBitmap
      \<Rightarrow> (error + PersistentBitmap) option"
  and DeallocateChildren ::
    "nat \<Rightarrow> geometry \<Rightarrow> SynchDisk \<Rightarrow> FileHeader \<Rightarrow> nat \<Rightarrow> int \<Rightarrow> PersistentBitmap
      \<Rightarrow> (error + PersistentBitmap) option" where
  "Deallocate 0 g dsk hdr freeMap = None"
| "Deallocate (Suc fuel) g dsk hdr freeMap =
     (if numBytes hdr > SingleSize g then
        DeallocateChildren fuel g dsk hdr 0 (divRoundUp (numSectors hdr) (NumDirect g)) freeMap
      else Some (DeallocateDirect hdr 0 freeMap))"
| "DeallocateChildren fuel g dsk hdr i sectors freeMap =
     (if int i < sectors then
        (if length (dataSectors hdr) \<le> i then Some (Inl OutOfBounds)
         else case FetchFrom dsk (dataSectors hdr ! i) of
           Inl e \<Rightarrow> Some (Inl e)
         | Inr child \<Rightarrow>
            (case Deallocate fuel g dsk child freeMap of
               None \<Rightarrow> None
             | Some (Inl e) \<Rightarrow> Some (Inl e)
             | Some (Inr freeMap') \<Rightarrow>
                 DeallocateChildren fuel g dsk hdr (i + 1) sectors freeMap'))
      else Some (Inr freeMap))"
  by pat_completeness auto
termination
  by (relation "measures [
     (\<lambda>x. case x of
        Inl (fuel, g, dsk, hdr, freeMap) \<Rightarrow> 2 * fuel
      | Inr (fuel, g, dsk, hdr, i, sectors, freeMap) \<Rightarrow> 2 * fuel + 1),
     (\<lambda>x. case x of
        Inl (fuel, g, dsk, hdr, freeMap) \<Rightarrow> 0
      | Inr (fuel, g, dsk, hdr, i, sectors, freeMap) \<Rightarrow> nat sectors - i)]") auto

subsection \<open>ByteToSector\<close>

text \<open>
  As \<open>Deallocate\<close>, \<open>ByteToSector\<close> follows headers read from the disk; the first
  argument bounds the depth of the recursion.
\<close>

fun ByteToSector ::
  "nat \<Rightarrow> geometry \<Rightarrow> SynchDisk \<Rightarrow> FileHeader \<Rightarrow> int \<Rightarrow> (error + int) option" where
  "ByteToSector 0 g dsk hdr offset = None"
| "ByteToSector (Suc fuel) g dsk hdr offset =
     (if numBytes hdr > TripleSize g then
        (let sector = divRoundDown offset (TripleSize g) in
         case sectorAt hdr sector of
           Inl e \<Rightarrow> Some (Inl e)
         | Inr s \<Rightarrow>
            (case FetchFrom dsk s of
               Inl e \<Rightarrow> Some (Inl e)
             | Inr child \<Rightarrow> ByteToSector fuel g dsk child (offset - sector * TripleSize g)))
      else if numBytes hdr > DoubleSize g then
        (let sector = divRoundDown offset (DoubleSize g) in
         case sectorAt hdr sector of
           Inl e \<Rightarrow> Some (Inl e)
         | Inr s \<Rightarrow>
            (case FetchFrom dsk s of
               Inl e \<Rightarrow> Some (Inl e)
             | Inr child \<Rightarrow> ByteToSector fuel g dsk child (offset - sector * DoubleSize g)))
      else if numBytes hdr > SingleSize g then
        (let sector = divRoundDown offset (SingleSize g) in
         case sectorAt hdr sector of
           Inl e \<Rightarrow> Some (Inl e)
         | Inr s \<Rightarrow>
            (case FetchFrom dsk s of
               Inl e \<Rightarrow> Some (Inl e)
             | Inr child \<Rightarrow> ByteToSector fuel g dsk child (offset - sector * SingleSize g)))
      else Some (sectorAt hdr (cdiv offset (SectorSize g))))"

section \<open>The scheduler (scheduler.cc)\<close>

subsection \<open>Threads and the kernel state\<close>

text \<open>
  Modelled from the spec: the thread class is not among the source files. A thread
  has the fields the scheduler reads and writes through its accessors: identity,
  status, priority, burst estimate (\<open>getBurstTime\<close>), start of the current burst
  (\<open>getBurstStart\<close>), the tick of its last admission (\<open>getWaitTime\<close>), whether it owns
  a user address space, and whether its stack has overflowed (what \<open>CheckOverflow\<close>
  looks for). The scheduler holds threads by pointer, so the state has a store from
  thread addresses to threads, and the queues and \<open>currentThread\<close> hold addresses.
\<close>

datatype ThreadStatus = JUST_CREATED | RUNNING | READY | BLOCKED | ZOMBIE

datatype IntStatus = IntOff | IntOn

record Thread =
  ID :: int
  status :: ThreadStatus
  priority :: int
  burstTime :: int
  burstStart :: int
  waitTime :: int
  space :: bool
  overflow :: bool

type_synonym addr = nat

text \<open>
  The scheduler's members (\<open>L1Q\<close>, \<open>L2Q\<close>, \<open>L3Q\<close>, \<open>toBeDestroyed\<close>) together with the
  parts of the kernel it touches: the current thread, the tick counter, the
  interrupt level, and the number of preemption requests made so far.
\<close>

record Kernel =
  threads :: "addr \<Rightarrow> Thread"
  currentThread :: addr
  totalTicks :: int
  level :: IntStatus
  preempts :: nat
  L1Q :: "addr list"
  L2Q :: "addr list"
  L3Q :: "addr list"
  toBeDestroyed :: "addr option"

text \<open>
  Modelled from the spec: \<open>Interrupt::Preempt\<close> is not among the source files. A
  preemption request is a signal to the interrupt layer and switches no context;
  the model counts the requests.
\<close>

definition Preempt :: "Kernel \<Rightarrow> Kernel" where
  "Preempt k = k\<lparr>preempts := Suc (preempts k)\<rparr>"

definition setStatus :: "addr \<Rightarrow> ThreadStatus \<Rightarrow> Kernel \<Rightarrow> Kernel" where
  "setStatus t st k = k\<lparr>threads := (threads k)(t := (threads k t)\<lparr>status := st\<rparr>)\<rparr>"

definition setWaitTime :: "addr \<Rightarrow> int \<Rightarrow> Kernel \<Rightarrow> Kernel" where
  "setWaitTime t w k = k\<lparr>threads := (threads k)(t := (threads k t)\<lparr>waitTime := w\<rparr>)\<rparr>"

definition setPriority :: "addr \<Rightarrow> int \<Rightarrow> Kernel \<Rightarrow> Kernel" where
  "setPriority t p k = k\<lparr>threads := (threads k)(t := (threads k t)\<lparr>priority := p\<rparr>)\<rparr>"

definition setBurstStart :: "addr \<Rightarrow> int \<Rightarrow> Kernel \<Rightarrow> Kernel" where
  "setBurstStart t b k = k\<lparr>threads := (threads k)(t := (threads k t)\<lparr>burstStart := b\<rparr>)\<rparr>"

definition setBurstTime :: "addr \<Rightarrow> int \<Rightarrow> Kernel \<Rightarrow> Kernel" where
  "setBurstTime t b k = k\<lparr>threads := (threads k)(t := (threads k t)\<lparr>burstTime := b\<rparr>)\<rparr>"

subsection \<open>The ready queues\<close>

text \<open>
  Modelled from the spec: the list classes and the two comparators are not among
  the source files. \<open>Append\<close> adds at the tail; \<open>Insert\<close> on a sorted list puts the
  item before the first element that the comparator ranks strictly after it, so
  equal elements keep their order of insertion; \<open>RemoveFront\<close> takes the head;
  \<open>Remove\<close> takes out the first occurrence of an item. L1 is ordered by burst
  estimate, shortest first, L2 by priority, highest first.
\<close>

fun Insert :: "('a \<Rightarrow> 'a \<Rightarrow> int) \<Rightarrow> 'a \<Rightarrow> 'a list \<Rightarrow> 'a list" where
  "Insert cmp x [] = [x]"
| "Insert cmp x (y # ys) = (if cmp x y < 0 then x # y # ys else y # Insert cmp x ys)"

definition cmpBurstTime :: "(addr \<Rightarrow> Thread) \<Rightarrow> addr \<Rightarrow> addr \<Rightarrow> int" where
  "cmpBurstTime th a b = burstTime (th a) - burstTime (th b)"

definition cmpPriority :: "(addr \<Rightarrow> Thread) \<Rightarrow> addr \<Rightarrow> addr \<Rightarrow> int" where
  "cmpPriority th a b = priority (th b) - priority (th a)"

subsection \<open>ReadyToRun\<close>

text \<open>
  A \<open>double\<close> assigned to an \<open>int\<close> is truncated toward zero. The products and sums
  of \<open>0.5\<close> with 32-bit integers are exact in double precision, so the expressions
  are modelled over the reals. The difference \<open>ticks - getBurstStart()\<close> in
  \<open>ReadyToRun\<close> is taken within the range of \<open>int\<close>: ticks are not negative and a
  burst starts no later than the current tick.
\<close>

definition truncToInt :: "real \<Rightarrow> int" where
  "truncToInt x = (if x < 0 then \<lceil>x\<rceil> else \<lfloor>x\<rfloor>)"

definition ReadyToRun :: "Kernel \<Rightarrow> addr \<Rightarrow> error + Kernel" where
  "ReadyToRun k0 thread =
     (if level k0 \<noteq> IntOff then Inl AssertionFailed
      else
        let k1 = setStatus thread READY k0;
            p = priority (threads k1 thread);
            ticks = totalTicks k1;
            k2 = setWaitTime thread ticks k1
        in
          if p < 50 then Inr (k2\<lparr>L3Q := L3Q k2 @ [thread]\<rparr>)
          else if p < 100 then
            (let k3 = k2\<lparr>L2Q := Insert (cmpPriority (threads k2)) thread (L2Q k2)\<rparr> in
             if p > priority (threads k3 (currentThread k3))
                \<and> ID (threads k3 (currentThread k3)) \<noteq> 0
             then Inr (Preempt k3) else Inr k3)
          else
            (let k3 = k2\<lparr>L1Q := Insert (cmpBurstTime (threads k2)) thread (L1Q k2)\<rparr>;
                 ti = truncToInt
                        (0.5 * real_of_int (burstTime (threads k3 (currentThread k3)))
                         + 0.5 * real_of_int (ticks - burstStart (threads k3 (currentThread k3))))
             in
               if ID (threads k3 thread) \<noteq> ID (threads k3 (currentThread k3))
                  \<and> ID (threads k3 (currentThread k3)) \<noteq> 0
               then
                 (if priority (threads k3 (currentThread k3)) \<ge> 100 then
                    (if burstTime (threads k3 thread) < ti then Inr (Preempt k3) else Inr k3)
                  else Inr (Preempt k3))
               else Inr k3))"

subsection \<open>FindNextToRun\<close>

definition FindNextToRun :: "Kernel \<Rightarrow> error + addr option \<times> Kernel" where
  "FindNextToRun k =
     (if level k \<noteq> IntOff then Inl AssertionFailed
      else if L1Q k \<noteq> [] then Inr (Some (hd (L1Q k)), k\<lparr>L1Q := tl (L1Q k)\<rparr>)
      else if L2Q k \<noteq> [] then Inr (Some (hd (L2Q k)), k\<lparr>L2Q := tl (L2Q k)\<rparr>)
      else if L3Q k \<noteq> [] then Inr (Some (hd (L3Q k)), k\<lparr>L3Q := tl (L3Q k)\<rparr>)
      else Inr (None, k))"

subsection \<open>Run\<close>

text \<open>
  \<open>Run k nextThread finishing\<close> is \<open>Scheduler::Run\<close> from its entry to the call of
  \<open>SWITCH\<close>: the state in which the next thread starts or resumes. Saving the user
  registers and the address space changes nothing of the state modelled here. What
  follows \<open>SWITCH\<close> runs when the old thread is resumed and is \<open>RunResumed\<close>.

  The length of the burst and its sum with the old estimate are computed in \<open>int\<close>
  before the product with \<open>0.5\<close>: they wrap around at 32 bits (\<open>int32\<close>).
\<close>

definition int32 :: "int \<Rightarrow> int" where
  "int32 x = (x + 2 ^ 31) mod 2 ^ 32 - 2 ^ 31"

definition Run :: "Kernel \<Rightarrow> addr \<Rightarrow> bool \<Rightarrow> error + Kernel" where
  "Run k nextThread finishing =
     (let oldThread = currentThread k in
      if level k \<noteq> IntOff then Inl AssertionFailed
      else if ID (threads k oldThread) = ID (threads k nextThread) then Inr k
      else if finishing \<and> toBeDestroyed k \<noteq> None then Inl AssertionFailed
      else
        let k1 = (if finishing then k\<lparr>toBeDestroyed := Some oldThread\<rparr> else k) in
        if overflow (threads k1 oldThread) then Inl AssertionFailed
        else
          let k2 = k1\<lparr>currentThread := nextThread\<rparr>;
              k3 = setStatus nextThread RUNNING k2;
              ticks = totalTicks k3;
              duration = int32 (ticks - burstStart (threads k3 oldThread));
              ti = truncToInt
                     (real_of_int (int32 (burstTime (threads k3 oldThread) + duration)) * 0.5);
              k4 = setBurstStart (currentThread k3) ticks k3;
              k5 = setBurstTime oldThread ti k4
          in Inr k5)"

text \<open>
  \<open>CheckToBeDestroyed\<close> deletes the thread marked for destruction and clears the
  mark; the store keeps no record of which addresses are live, so only the mark
  changes.
\<close>

definition CheckToBeDestroyed :: "Kernel \<Rightarrow> Kernel" where
  "CheckToBeDestroyed k = k\<lparr>toBeDestroyed := None\<rparr>"

definition RunResumed :: "Kernel \<Rightarrow> error + Kernel" where
  "RunResumed k =
     (if level k \<noteq> IntOff then Inl AssertionFailed else Inr (CheckToBeDestroyed k))"

subsection \<open>Aging\<close>

text \<open>
  The first loop of \<open>Aging\<close> walks L1 and changes threads in place; \<open>AgingL1 ticks ts k\<close>
  is the loop with the iterator standing before the elements \<open>ts\<close>.
\<close>

fun AgingL1 :: "int \<Rightarrow> addr list \<Rightarrow> Kernel \<Rightarrow> Kernel" where
  "AgingL1 ticks [] k = k"
| "AgingL1 ticks (thread # rest) k =
     (if ticks - waitTime (threads k thread) > 1500 then
        (let prio = priority (threads k thread);
             new_priority = min (prio + 10) 149;
             k1 = setPriority thread new_priority k;
             k2 = setWaitTime thread ticks k1
         in AgingL1 ticks rest k2)
      else AgingL1 ticks rest k)"

text \<open>
  Modelled from the spec: the list and iterator classes are not among the source
  files. A list is a chain of elements, each holding an item and a link to the
  next element. An iterator is a pointer to an element: \<open>Item\<close> reads the item under
  it, \<open>Next\<close> follows the link of the element under it, \<open>IsDone\<close> holds at the end
  of the chain. \<open>Remove\<close> unlinks the element of an item and deletes it; \<open>Insert\<close> and
  \<open>Append\<close> allocate one element.

  The second loop of \<open>Aging\<close> walks L2. For a thread over the threshold it removes
  the thread from L2, which deletes the element under the iterator, raises the
  priority and calls \<open>ReadyToRun\<close>, which allocates one element for the thread in
  the queue of the band of its new priority. Only then is \<open>Next\<close> applied, to an
  element that has been deleted in between; the language gives that read no
  meaning. The model follows the machine with an allocator that serves a request
  from the block freed last: the element allocated in \<open>ReadyToRun\<close> is the block
  just deleted, the iterator therefore stands on the new element of the thread,
  and \<open>Next\<close> leads to what follows the thread in the queue it was put on. A thread
  is taken to have at most one element (the queues are disjoint and hold a thread
  once).

  \<open>bandQueue k p\<close> is the queue on which \<open>ReadyToRun\<close> puts a thread of priority \<open>p\<close>,
  and \<open>elementsAfter x q\<close> are the items that follow \<open>x\<close> in \<open>q\<close>.
\<close>

definition bandQueue :: "Kernel \<Rightarrow> int \<Rightarrow> addr list" where
  "bandQueue k p = (if p < 50 then L3Q k else if p < 100 then L2Q k else L1Q k)"

fun elementsAfter :: "addr \<Rightarrow> addr list \<Rightarrow> addr list" where
  "elementsAfter x [] = []"
| "elementsAfter x (y # ys) = (if y = x then ys else elementsAfter x ys)"

text \<open>
  \<open>AgingL2 fuel ticks ts k\<close> is the second loop with the iterator on the first of
  \<open>ts\<close>, the items from the element under the iterator to the end of its chain. A
  re-admission can lead the iterator through a queue once more, so the number of
  turns is bounded by \<open>fuel\<close>; \<open>None\<close> is a loop that has not ended within the bound.
\<close>

fun AgingL2 :: "nat \<Rightarrow> int \<Rightarrow> addr list \<Rightarrow> Kernel \<Rightarrow> (error + Kernel) option" where
  "AgingL2 fuel ticks [] k = Some (Inr k)"
| "AgingL2 0 ticks (thread # rest) k = None"
| "AgingL2 (Suc fuel) ticks (thread # rest) k =
     (if ticks - waitTime (threads k thread) > 1500 then
        (let k1 = k\<lparr>L2Q := remove1 thread (L2Q k)\<rparr>;
             prio = priority (threads k1 thread);
             new_priority = min (prio + 10) 149;
             k2 = setPriority thread new_priority k1;
             k3 = setWaitTime thread ticks k2
         in case ReadyToRun k3 thread of
              Inl e \<Rightarrow> Some (Inl e)
            | Inr k4 \<Rightarrow>
                AgingL2 fuel ticks (elementsAfter thread (bandQueue k4 new_priority)) k4)
      else AgingL2 fuel ticks rest k)"

text \<open>
  Both iterators are made on entry, from the heads of L1 and L2 as they are then.
\<close>

definition Aging :: "nat \<Rightarrow> Kernel \<Rightarrow> (error + Kernel) option" where
  "Aging fuel k =
     (let it1 = L1Q k;
          it2 = L2Q k;
          ticks = totalTicks k;
          k1 = AgingL1 ticks it1 k
      in AgingL2 fuel ticks it2 k1)"

text \<open>A thread after one promotion, for the statements about \<open>Aging\<close>.\<close>

definition aged :: "Thread \<Rightarrow> int \<Rightarrow> Thread" where
  "aged th ticks = th\<lparr>priority := min (priority th + 10) 149, waitTime := ticks\<rparr>"

subsection \<open>Example states\<close>

text \<open>
  Concrete threads, kernel states and a small disk geometry, used where a theorem
  is applied to an explicit input.
\<close>

definition mkThread :: "int \<Rightarrow> int \<Rightarrow> int \<Rightarrow> int \<Rightarrow> int \<Rightarrow> Thread" where
  "mkThread i p b s w =
     \<lparr>ID = i, status = BLOCKED, priority = p, burstTime = b, burstStart = s, waitTime = w,
      space = False, overflow = False\<rparr>"

definition mkReady :: "int \<Rightarrow> int \<Rightarrow> int \<Rightarrow> int \<Rightarrow> Thread" where
  "mkReady i p b w = (mkThread i p b 0 w)\<lparr>status := READY\<rparr>"

definition mkKernel ::
  "(addr \<Rightarrow> Thread) \<Rightarrow> addr \<Rightarrow> int \<Rightarrow> addr list \<Rightarrow> addr list \<Rightarrow> addr list \<Rightarrow> Kernel" where
  "mkKernel th cur ticks q1 q2 q3 =
     \<lparr>threads = th, currentThread = cur, totalTicks = ticks, level = IntOff, preempts = 0,
      L1Q = q1, L2Q = q2, L3Q = q3, toBeDestroyed = None\<rparr>"

abbreviation smallGeometry :: geometry where
  "smallGeometry \<equiv> \<lparr>SectorSize = 16, NumDirect = 2\<rparr>"

section \<open>Arithmetic of the size ladder\<close>

lemma cdiv_nonneg: "0 \<le> a \<Longrightarrow> 0 < b \<Longrightarrow> cdiv a b = a div b"
  by (simp add: cdiv_def)

lemma crem_nonneg: "0 \<le> a \<Longrightarrow> 0 < b \<Longrightarrow> crem a b = a mod b"
  by (simp add: crem_def cdiv_nonneg minus_mult_div_eq_mod)

lemma divRoundUp_eq: "0 < s \<Longrightarrow> divRoundUp n s = - ((- n) div s)"
proof (cases "0 \<le> n")
  case True
  assume s: "0 < s"
  with True have "cdiv n s = n div s" "crem n s = n mod s"
    by (simp_all add: cdiv_nonneg crem_nonneg)
  moreover have "n mod s = 0 \<or> 0 < n mod s" using pos_mod_sign [of s n] s by linarith
  ultimately show ?thesis using s
    by (auto simp: divRoundUp_def zdiv_zminus1_eq_if)
next
  case False
  assume s: "0 < s"
  from False s have c: "cdiv n s = - ((- n) div s)" by (simp add: cdiv_def)
  have "crem n s = - ((- n) mod s)"
    unfolding crem_def c by (simp add: minus_mult_div_eq_mod [symmetric] algebra_simps)
  moreover have "0 \<le> (- n) mod s" using s by simp
  ultimately show ?thesis using c by (simp add: divRoundUp_def)
qed

lemma divRoundUp_ceiling: "0 < s \<Longrightarrow> divRoundUp n s = \<lceil>real_of_int n / real_of_int s\<rceil>"
  by (simp add: divRoundUp_eq ceiling_divide_eq_div)

lemma divRoundUp_step: "0 < c \<Longrightarrow> divRoundUp n c = 1 + divRoundUp (n - c) c"
proof -
  assume c: "0 < c"
  have "(- (n - c)) div c = (- n + c) div c" by simp
  also have "\<dots> = (- n) div c + 1" using c div_add_self2 [of c "- n"] by simp
  finally show ?thesis using c by (simp add: divRoundUp_eq)
qed

lemma divRoundUp_nonpos: "0 < c \<Longrightarrow> n \<le> 0 \<Longrightarrow> divRoundUp n c \<le> 0"
  by (simp add: divRoundUp_eq pos_imp_zdiv_nonneg_iff)

lemma divRoundUp_pos: "0 < c \<Longrightarrow> 0 < n \<Longrightarrow> 0 < divRoundUp n c"
  by (simp add: divRoundUp_eq pos_imp_zdiv_neg_iff)

lemma divRoundUp_twice:
  "0 < a \<Longrightarrow> 0 < b \<Longrightarrow> divRoundUp (divRoundUp n a) b = divRoundUp n (b * a)"
  by (simp add: divRoundUp_eq zdiv_zmult2_eq mult.commute)

lemma divRoundUp_greater: "0 < c \<Longrightarrow> m * c < n \<Longrightarrow> m < divRoundUp n c"
proof -
  assume c: "0 < c" and n: "m * c < n"
  have "(- n) div c < - m"
  proof (rule ccontr)
    assume "\<not> (- n) div c < - m"
    then have "- m \<le> (- n) div c" by simp
    then have "- m * c \<le> ((- n) div c) * c"
      using c mult_right_mono [of "- m" "(- n) div c" c] by simp
    also have "\<dots> \<le> - n"
    proof -
      have e: "((- n) div c) * c + (- n) mod c = - n" by (rule div_mult_mod_eq)
      have p: "0 \<le> (- n) mod c" using c by (rule pos_mod_sign)
      from e p show ?thesis by linarith
    qed
    finally show False using n by simp
  qed
  then show ?thesis using c by (simp add: divRoundUp_eq)
qed

lemma divRoundUp_le: "0 < c \<Longrightarrow> n \<le> m * c \<Longrightarrow> divRoundUp n c \<le> m"
proof -
  assume c: "0 < c" and n: "n \<le> m * c"
  have "- m \<le> (- n) div c"
  proof -
    have "((- m) * c) div c \<le> (- n) div c" using n c by (intro zdiv_mono1) simp_all
    moreover have "((- m) * c) div c = - m" using c by (intro nonzero_mult_div_cancel_right) simp
    ultimately show ?thesis by (simp only:)
  qed
  then show ?thesis using c by (simp add: divRoundUp_eq)
qed

lemma divRoundUp_nonneg: "0 < c \<Longrightarrow> 0 \<le> n \<Longrightarrow> 0 \<le> divRoundUp n c"
  using divRoundUp_pos [of c n] by (cases "n = 0") (simp_all add: divRoundUp_eq)

lemma minus_one_div: "0 < c \<Longrightarrow> (- 1) div c = (- 1 :: int)"
  by (rule int_div_pos_eq [of _ _ _ "c - 1"]) simp_all

lemma divRoundUp_one: "0 < c \<Longrightarrow> divRoundUp 1 c = 1"
  by (simp add: divRoundUp_eq minus_one_div)

lemma divRoundUp_mult: "0 < c \<Longrightarrow> divRoundUp (m * c) c = m"
  by (simp add: divRoundUp_eq flip: mult_minus_left)

lemma divRoundUp_mult_Suc: "0 < c \<Longrightarrow> divRoundUp (m * c + 1) c = m + 1"
proof -
  assume c: "0 < c"
  have "- (m * c + 1) = - 1 + (- m) * c" by simp
  then have "(- (m * c + 1)) div c = (- 1 + (- m) * c) div c" by (simp only:)
  also have "\<dots> = - m + (- 1) div c" using c by (intro div_mult_self1) simp
  finally show ?thesis using c by (simp add: divRoundUp_eq minus_one_div)
qed


lemma ladder_pos:
  assumes "0 < SectorSize g" and "0 < NumDirect g"
  shows "0 < SingleSize g" and "0 < DoubleSize g" and "0 < TripleSize g"
    and "SingleSize g \<le> DoubleSize g" and "DoubleSize g \<le> TripleSize g"
proof -
  show s: "0 < SingleSize g" using assms by (simp add: SingleSize_def)
  show d: "0 < DoubleSize g" using assms s by (simp add: DoubleSize_def)
  show "0 < TripleSize g" using assms d by (simp add: TripleSize_def)
  have n: "1 \<le> NumDirect g" using assms by simp
  show "SingleSize g \<le> DoubleSize g"
    using mult_right_mono [OF n, of "SingleSize g"] s by (simp add: DoubleSize_def)
  show "DoubleSize g \<le> TripleSize g"
    using mult_right_mono [OF n, of "DoubleSize g"] d by (simp add: TripleSize_def)
qed

section \<open>Allocation and deallocation of file headers\<close>

text \<open>
  The boolean that \<open>Allocate\<close> returns is decided by the test on entry alone: whatever
  the loops do afterwards, the call returns \<open>TRUE\<close>.
\<close>

lemma Allocate_result:
  "Allocate g hdr freeMap dsk fileSize = Inr (ok, hdr', freeMap', dsk') \<Longrightarrow>
     ok = (\<not> NumClear freeMap < divRoundUp fileSize (SectorSize g))"
  by (auto simp: Let_def split: if_splits sum.splits prod.splits)

text \<open>
  The loop over the children writes one entry of \<open>dataSectors\<close> per turn, from index
  \<open>i\<close> on, and makes \<open>divRoundUp fileSize chunk\<close> turns; every entry written is a
  sector number that \<open>WriteBack\<close> accepted.
\<close>

lemma AllocateChildren_written:
  assumes "0 < chunk"
    and "AllocateChildren g chunk i fileSize hdr freeMap dsk = Inr (hdr', freeMap', dsk')"
    and "i \<le> length (dataSectors hdr)"
  shows "numBytes hdr' = numBytes hdr \<and> numSectors hdr' = numSectors hdr \<and>
     (\<exists>ss. length ss = nat (divRoundUp fileSize chunk) \<and> (\<forall>s \<in> set ss. 0 \<le> s) \<and>
           i + length ss \<le> length (dataSectors hdr) \<and>
           dataSectors hdr' =
             take i (dataSectors hdr) @ ss @ drop (i + length ss) (dataSectors hdr))"
  using assms
proof (induction "nat fileSize" arbitrary: i fileSize hdr freeMap dsk rule: less_induct)
  case less
  show ?case
  proof (cases "0 < fileSize")
    case False
    with less.prems have "hdr' = hdr" by simp
    moreover from False less.prems(1) have "nat (divRoundUp fileSize chunk) = 0"
      using divRoundUp_nonpos [of chunk fileSize] by simp
    ultimately show ?thesis using less.prems(3) by simp
  next
    case True
    from True less.prems(2) have i: "i < length (dataSectors hdr)"
      by (auto split: if_splits)
    obtain s m1 where f: "FindAndSet freeMap = (s, m1)" by (cases "FindAndSet freeMap")
    let ?size = "if fileSize > chunk then chunk else fileSize"
    from True i f less.prems(2) obtain ok child m2 d2 where
      a: "Allocate g (newFileHeader g) m1 dsk ?size = Inr (ok, child, m2, d2)"
      by (cases "Allocate g (newFileHeader g) m1 dsk ?size")
         (auto simp del: Allocate.simps split: if_splits)
    from True i f a less.prems(2) obtain d3 where
      w: "WriteBack d2 child s = Inr d3"
      by (cases "WriteBack d2 child s") (auto simp del: Allocate.simps split: if_splits)
    then have s: "0 \<le> s" by (auto simp: WriteBack_def split: if_splits)
    let ?hdr1 = "hdr\<lparr>dataSectors := (dataSectors hdr)[i := s]\<rparr>"
    from True i f a w less.prems(2) have
      r: "AllocateChildren g chunk (i + 1) (fileSize - chunk) ?hdr1 m2 d3 = Inr (hdr', freeMap', dsk')"
      by (auto simp del: Allocate.simps split: if_splits)
    have m: "nat (fileSize - chunk) < nat fileSize" using True less.prems(1) by simp
    have i1: "i + 1 \<le> length (dataSectors ?hdr1)" using i by simp
    from less.hyps [OF m less.prems(1) r i1] obtain ss where
      fr: "numBytes hdr' = numBytes hdr" "numSectors hdr' = numSectors hdr"
      and ss: "length ss = nat (divRoundUp (fileSize - chunk) chunk)" "\<forall>s \<in> set ss. 0 \<le> s"
        "i + 1 + length ss \<le> length (dataSectors hdr)"
        "dataSectors hdr' = take (i + 1) ((dataSectors hdr)[i := s]) @ ss
            @ drop (i + 1 + length ss) ((dataSectors hdr)[i := s])"
      by auto
    have cnt: "nat (divRoundUp fileSize chunk) = Suc (length ss)"
    proof -
      have "divRoundUp fileSize chunk = 1 + divRoundUp (fileSize - chunk) chunk"
        using less.prems(1) by (rule divRoundUp_step)
      moreover have "0 < divRoundUp fileSize chunk"
        using less.prems(1) True by (rule divRoundUp_pos)
      ultimately show ?thesis using ss(1) by simp
    qed
    have t: "take (i + 1) ((dataSectors hdr)[i := s]) = take i (dataSectors hdr) @ [s]"
      using i by (simp add: take_Suc_conv_app_nth)
    have d: "drop (i + 1 + length ss) ((dataSectors hdr)[i := s])
               = drop (i + length (s # ss)) (dataSectors hdr)"
      by simp
    have "length (s # ss) = nat (divRoundUp fileSize chunk) \<and> (\<forall>x \<in> set (s # ss). 0 \<le> x) \<and>
           i + length (s # ss) \<le> length (dataSectors hdr) \<and>
           dataSectors hdr' =
             take i (dataSectors hdr) @ (s # ss) @ drop (i + length (s # ss)) (dataSectors hdr)"
      using cnt s ss t d by simp
    then show ?thesis using fr by blast
  qed
qed


text \<open>
  A successful \<open>Allocate\<close> of an interior size on a fresh header: the header's fields,
  and the number of children written (the entries that are sector numbers).
\<close>

lemma Allocate_interior:
  assumes g: "0 < SectorSize g" "0 < NumDirect g"
    and big: "SingleSize g < fileSize"
    and run: "Allocate g (newFileHeader g) freeMap dsk fileSize = Inr (True, hdr, freeMap', dsk')"
  shows "numBytes hdr = fileSize \<and> numSectors hdr = divRoundUp fileSize (SectorSize g) \<and>
         length (dataSectors hdr) = nat (NumDirect g) \<and>
         length (filter (\<lambda>s. 0 \<le> s) (dataSectors hdr))
           = nat (divRoundUp fileSize (childSpan g fileSize))"
proof -
  let ?hdr = "(newFileHeader g)\<lparr>numBytes := fileSize,
                 numSectors := divRoundUp fileSize (SectorSize g)\<rparr>"
  let ?c = "childSpan g fileSize"
  have c: "0 < ?c" using ladder_pos(1,2,3) [OF g] by (simp add: childSpan_def)
  have loop: "AllocateChildren g ?c 0 fileSize ?hdr freeMap dsk = Inr (hdr, freeMap', dsk')"
    using run big
    by (auto simp: Let_def childSpan_def simp del: AllocateChildren.simps
             split: if_splits sum.splits prod.splits)
  from AllocateChildren_written [OF c loop] obtain ss where
    fr: "numBytes hdr = fileSize" "numSectors hdr = divRoundUp fileSize (SectorSize g)"
    and ss: "length ss = nat (divRoundUp fileSize ?c)" "\<forall>s \<in> set ss. 0 \<le> s"
      "dataSectors hdr = ss @ drop (length ss) (dataSectors (newFileHeader g))"
      "length ss \<le> length (dataSectors (newFileHeader g))"
    by auto
  have len: "length (dataSectors hdr) = nat (NumDirect g)"
    using ss(3,4) by (simp add: newFileHeader_def)
  have "filter (\<lambda>s. 0 \<le> s) ss = ss" using ss(2) by simp
  moreover have "filter (\<lambda>s. 0 \<le> s) (drop (length ss) (dataSectors (newFileHeader g))) = []"
    by (simp add: newFileHeader_def)
  ultimately have "length (filter (\<lambda>s. 0 \<le> s) (dataSectors hdr)) = length ss"
    using ss(3) by simp
  with fr len ss(1) show ?thesis by simp
qed

text \<open>In the Single band the bound of \<open>Deallocate\<close> is the number of children written.\<close>

lemma Deallocate_bound_single_band:
  assumes g: "0 < SectorSize g" "0 < NumDirect g"
    and band: "SingleSize g < fileSize" "fileSize \<le> DoubleSize g"
    and run: "Allocate g (newFileHeader g) freeMap dsk fileSize = Inr (True, hdr, freeMap', dsk')"
  shows "divRoundUp (numSectors hdr) (NumDirect g)
           = int (length (filter (\<lambda>s. 0 \<le> s) (dataSectors hdr)))"
proof -
  have c: "childSpan g fileSize = SingleSize g"
    using band ladder_pos(5) [OF g] by (simp add: childSpan_def)
  have "0 < divRoundUp fileSize (SingleSize g)"
    using ladder_pos(1) [OF g] band(1) by (intro divRoundUp_pos) simp_all
  with Allocate_interior [OF g band(1) run] c g show ?thesis
    by (simp add: divRoundUp_twice SingleSize_def)
qed

lemma DeallocateChildren_overrun:
  assumes "int (length (dataSectors hdr)) < sectors" and "i \<le> length (dataSectors hdr)"
  shows "DeallocateChildren fuel g dsk hdr i sectors freeMap \<noteq> Some (Inr freeMap')"
  using assms(2)
proof (induction "length (dataSectors hdr) - i" arbitrary: i freeMap)
  case 0
  then have "length (dataSectors hdr) \<le> i" "int i < sectors" using assms(1) by simp_all
  then show ?case by simp
next
  case (Suc n)
  then have m: "n = length (dataSectors hdr) - (i + 1)" "i + 1 \<le> length (dataSectors hdr)"
    by simp_all
  note IH = Suc.hyps(1) [OF m]
  have "int i < sectors" using Suc.prems assms(1) by simp
  then show ?case using IH
    by (auto split: sum.splits option.splits)
qed


subsection \<open>Runs on a pool whose used sectors are a prefix\<close>

text \<open>
  On a bitmap of the form \<open>replicate a True @ replicate b False\<close> the loops can be
  followed for every geometry: \<open>FindAndSet\<close> takes sector \<open>a\<close>, and a leaf takes the
  next sectors in order.
\<close>

lemma FindClear_prefix: "FindClear (replicate a True @ False # ys) = Some a"
  by (induction a) simp_all

lemma FindClear_full: "FindClear (replicate a True) = None"
  by (induction a) simp_all

lemma FindAndSet_prefix:
  "FindAndSet (replicate a True @ replicate (Suc b) False)
     = (int a, replicate (Suc a) True @ replicate b False)"
proof -
  have "(replicate a True @ False # replicate b False)[a := True]
          = replicate a True @ True # replicate b False"
    by (simp add: list_update_append)
  also have "\<dots> = replicate (Suc a) True @ replicate b False"
    by (simp add: replicate_append_same)
  finally show ?thesis by (simp add: FindAndSet_def FindClear_prefix)
qed

lemma FindAndSet_full: "FindAndSet (replicate a True) = (- 1, replicate a True)"
  by (simp add: FindAndSet_def FindClear_full)

lemma NumClear_prefix [simp]: "NumClear (xs @ ys) = NumClear xs + NumClear ys"
  by (simp add: NumClear_def)

lemma NumClear_replicate [simp]:
  "NumClear (replicate a True) = 0" "NumClear (replicate b False) = int b"
  by (simp_all add: NumClear_def)

text \<open>The leaf loop on a pool whose used sectors are the first \<open>a\<close>.\<close>

lemma AllocateDirect_prefix:
  assumes "numSectors hdr = int (i + n)" and "n \<le> b"
    and "i + n \<le> length (dataSectors hdr)"
  shows "AllocateDirect i hdr (replicate a True @ replicate b False) =
     Inr (hdr\<lparr>dataSectors := take i (dataSectors hdr) @ map int [a..<a + n]
                     @ drop (i + n) (dataSectors hdr)\<rparr>,
          replicate (a + n) True @ replicate (b - n) False)"
  using assms
proof (induction n arbitrary: i hdr a b)
  case 0
  then show ?case by simp
next
  case (Suc n)
  from Suc.prems(2) obtain b' where b: "b = Suc b'" by (cases b) simp_all
  let ?ds = "dataSectors hdr"
  let ?hdr1 = "hdr\<lparr>dataSectors := ?ds[i := int a]\<rparr>"
  have i: "i < length ?ds" using Suc.prems(3) by simp
  have step: "AllocateDirect i hdr (replicate a True @ replicate b False)
        = AllocateDirect (Suc i) ?hdr1 (replicate (Suc a) True @ replicate b' False)"
    using i Suc.prems(1) by (simp add: b FindAndSet_prefix del: replicate.simps)
  have IH: "AllocateDirect (Suc i) ?hdr1 (replicate (Suc a) True @ replicate b' False) =
     Inr (?hdr1\<lparr>dataSectors := take (Suc i) (dataSectors ?hdr1)
                      @ map int [Suc a..<Suc a + n] @ drop (Suc i + n) (dataSectors ?hdr1)\<rparr>,
          replicate (Suc a + n) True @ replicate (b' - n) False)"
    using Suc.prems b by (intro Suc.IH) simp_all
  have t: "take (Suc i) (?ds[i := int a]) = take i ?ds @ [int a]"
    using i by (simp add: take_Suc_conv_app_nth)
  have m: "map int [a..<a + Suc n] = int a # map int [Suc a..<Suc a + n]"
    by (simp add: upt_rec)
  have d: "drop (Suc i + n) (?ds[i := int a]) = drop (i + Suc n) ?ds" by simp
  have e: "?hdr1\<lparr>dataSectors := take (Suc i) (dataSectors ?hdr1)
                      @ map int [Suc a..<Suc a + n] @ drop (Suc i + n) (dataSectors ?hdr1)\<rparr>
         = hdr\<lparr>dataSectors := take i ?ds @ map int [a..<a + Suc n] @ drop (i + Suc n) ?ds\<rparr>"
    by (simp only: m) (simp add: t d del: upt.simps)
  have p: "replicate (Suc a + n) True @ replicate (b' - n) False
         = replicate (a + Suc n) True @ replicate (b - Suc n) False"
    by (simp add: b)
  show ?case unfolding step IH e p ..
qed


text \<open>A leaf allocation on a fresh header, from a pool whose used sectors are the first \<open>a\<close>.\<close>

lemma Allocate_leaf_prefix:
  assumes g: "0 < SectorSize g" "0 < NumDirect g"
    and S: "0 \<le> fileSize" "fileSize \<le> SingleSize g"
    and n: "divRoundUp fileSize (SectorSize g) = int n" and b: "n \<le> b"
  shows "Allocate g (newFileHeader g) (replicate a True @ replicate b False) dsk fileSize =
     Inr (True,
          \<lparr>numBytes = fileSize, numSectors = int n,
             dataSectors = map int [a..<a + n] @ replicate (nat (NumDirect g) - n) (- 1)\<rparr>,
          replicate (a + n) True @ replicate (b - n) False, dsk)"
proof -
  let ?hdr = "(newFileHeader g)\<lparr>numBytes := fileSize, numSectors := int n\<rparr>"
  have "divRoundUp fileSize (SectorSize g) \<le> NumDirect g"
    using g S by (intro divRoundUp_le) (simp_all add: SingleSize_def)
  then have cap: "n \<le> nat (NumDirect g)" using n by simp
  have "AllocateDirect 0 ?hdr (replicate a True @ replicate b False) =
     Inr (?hdr\<lparr>dataSectors := take 0 (dataSectors ?hdr) @ map int [a..<a + n]
                     @ drop (0 + n) (dataSectors ?hdr)\<rparr>,
          replicate (a + n) True @ replicate (b - n) False)"
    using b cap by (intro AllocateDirect_prefix) (simp_all add: newFileHeader_def)
  then have leaf: "AllocateDirect 0 ?hdr (replicate a True @ replicate b False) =
     Inr (\<lparr>numBytes = fileSize, numSectors = int n,
             dataSectors = map int [a..<a + n] @ replicate (nat (NumDirect g) - n) (- 1)\<rparr>,
          replicate (a + n) True @ replicate (b - n) False)"
    by (simp add: newFileHeader_def)
  have bands: "\<not> fileSize > TripleSize g" "\<not> fileSize > DoubleSize g" "\<not> fileSize > SingleSize g"
    using S ladder_pos(4,5) [OF g] by simp_all
  show ?thesis
    using bands b leaf by (simp add: n Let_def del: AllocateDirect.simps)
qed

lemma DeallocateDirect_range:
  assumes "numSectors hdr = int (i + n)" and "length pre = i" and "length xs = a"
    and "dataSectors hdr = pre @ map int [a..<a + n] @ post"
  shows "DeallocateDirect hdr i (xs @ replicate n True @ ys) = Inr (xs @ replicate n False @ ys)"
  using assms
proof (induction n arbitrary: i a pre xs)
  case 0
  then show ?case by simp
next
  case (Suc n)
  have ds: "dataSectors hdr = (pre @ [int a]) @ map int [Suc a..<Suc a + n] @ post"
    using Suc.prems(4) by (simp add: upt_rec)
  have at: "dataSectors hdr ! i = int a" "i < length (dataSectors hdr)"
    using Suc.prems(2,4) by (simp_all add: nth_append upt_rec)
  have test: "Test (xs @ replicate (Suc n) True @ ys) (int a)"
    using Suc.prems(3) by (simp add: Test_def nth_append)
  have clear: "Clear (xs @ replicate (Suc n) True @ ys) (int a)
                 = (xs @ [False]) @ replicate n True @ ys"
    using Suc.prems(3) by (simp add: Clear_def list_update_append)
  have step: "DeallocateDirect hdr i (xs @ replicate (Suc n) True @ ys)
        = DeallocateDirect hdr (Suc i) ((xs @ [False]) @ replicate n True @ ys)"
    using at test clear Suc.prems(1)
    by (subst DeallocateDirect.simps) (simp del: DeallocateDirect.simps replicate.simps)
  have IH: "DeallocateDirect hdr (Suc i) ((xs @ [False]) @ replicate n True @ ys)
        = Inr ((xs @ [False]) @ replicate n False @ ys)"
    using Suc.prems ds by (intro Suc.IH [where pre = "pre @ [int a]" and a = "Suc a"]) simp_all
  show ?case unfolding step IH by (simp add: replicate_app_Cons_same)
qed


text \<open>One turn of the loop over the children, and its end.\<close>

lemma AllocateChildren_step:
  assumes "0 < fileSize" and "i < length (dataSectors hdr)"
    and "FindAndSet freeMap = (s, poolA)"
    and "Allocate g (newFileHeader g) poolA dsk (if fileSize > chunk then chunk else fileSize)
           = Inr (ok, child, poolB, dskB)"
    and "0 \<le> s"
  shows "AllocateChildren g chunk i fileSize hdr freeMap dsk =
           AllocateChildren g chunk (i + 1) (fileSize - chunk)
             (hdr\<lparr>dataSectors := (dataSectors hdr)[i := s]\<rparr>) poolB (dskB(s \<mapsto> child))"
  using assms
  by (subst AllocateChildren.simps)
     (simp add: WriteBack_def del: Allocate.simps AllocateChildren.simps)

lemma AllocateChildren_done:
  "fileSize \<le> 0 \<Longrightarrow> AllocateChildren g chunk i fileSize hdr freeMap dsk = Inr (hdr, freeMap, dsk)"
  by simp

lemma Allocate_single_band:
  assumes "\<not> NumClear freeMap < divRoundUp fileSize (SectorSize g)"
    and "SingleSize g < fileSize" and "fileSize \<le> DoubleSize g" and "DoubleSize g \<le> TripleSize g"
    and "AllocateChildren g (SingleSize g) 0 fileSize
           (hdr0\<lparr>numBytes := fileSize, numSectors := divRoundUp fileSize (SectorSize g)\<rparr>)
           freeMap dsk = Inr (hdr, freeMap', dsk')"
  shows "Allocate g hdr0 freeMap dsk fileSize = Inr (True, hdr, freeMap', dsk')"
  using assms
  by (subst Allocate.simps) (simp add: Let_def del: Allocate.simps AllocateChildren.simps)

text \<open>
  A file one byte larger than \<open>SingleSize\<close>, allocated from a pool of \<open>NumDirect + 2\<close>
  free sectors: the call returns \<open>TRUE\<close> although the second child got no sector.
\<close>

lemma Allocate_one_over_short:
  assumes g: "0 < SectorSize g" "2 \<le> NumDirect g"
  defines "n \<equiv> nat (NumDirect g)"
  shows "Allocate g (newFileHeader g) (replicate (n + 2) False) Map.empty (SingleSize g + 1) =
     Inr (True,
          \<lparr>numBytes = SingleSize g + 1, numSectors = int n + 1,
             dataSectors = [0, int n + 1] @ replicate (n - 2) (- 1)\<rparr>,
          replicate (n + 2) True,
          [0 \<mapsto> \<lparr>numBytes = SingleSize g, numSectors = int n, dataSectors = map int [1..<1 + n]\<rparr>,
           int n + 1 \<mapsto> (newFileHeader g)\<lparr>numBytes := 1, numSectors := 1\<rparr>])"
proof -
  have g0: "0 < NumDirect g" using g by simp
  have N: "NumDirect g = int n" "2 \<le> n" using g by (simp_all add: n_def)
  note lad = ladder_pos [OF g(1) g0]
  have S1: "SingleSize g = int n * SectorSize g" by (simp add: SingleSize_def N)
  have two: "2 \<le> SingleSize g"
    using mult_mono [of 2 "int n" 1 "SectorSize g"] g N unfolding S1 by simp
  have "2 * SingleSize g \<le> NumDirect g * SingleSize g"
    using g two by (intro mult_right_mono) simp_all
  then have dbl: "SingleSize g + 1 \<le> DoubleSize g"
    using two unfolding DoubleSize_def by linarith
  have r0: "divRoundUp (SingleSize g) (SectorSize g) = int n"
    unfolding S1 using g(1) by (rule divRoundUp_mult)
  have r1: "divRoundUp (SingleSize g + 1) (SectorSize g) = int n + 1"
    unfolding S1 using g(1) by (rule divRoundUp_mult_Suc)
  have r2: "divRoundUp 1 (SectorSize g) = 1" using g(1) by (rule divRoundUp_one)
  let ?hdr0 = "(newFileHeader g)\<lparr>numBytes := SingleSize g + 1, numSectors := int n + 1\<rparr>"
  let ?child0 = "\<lparr>numBytes = SingleSize g, numSectors = int n, dataSectors = map int [1..<1 + n]\<rparr>"
  let ?child1 = "(newFileHeader g)\<lparr>numBytes := 1, numSectors := 1\<rparr>"
  have len: "length (dataSectors ?hdr0) = n" by (simp add: newFileHeader_def n_def)
  \<comment> \<open>first turn\<close>
  have f0: "FindAndSet (replicate (n + 2) False) = (0, replicate 1 True @ replicate (n + 1) False)"
    using FindAndSet_prefix [of 0 "n + 1"] by simp
  have c0: "Allocate g (newFileHeader g) (replicate 1 True @ replicate (n + 1) False) Map.empty
              (SingleSize g)
            = Inr (True, ?child0, replicate (Suc n) True @ replicate 1 False, Map.empty)"
    using Allocate_leaf_prefix [OF g(1) g0 _ _ r0, of "n + 1" 1 Map.empty] lad(1) N
    by (simp del: replicate.simps upt.simps)
  have p0: "0 < length (dataSectors ?hdr0)" "1 < length (dataSectors ?hdr0)"
    using len N by simp_all
  have a0: "Allocate g (newFileHeader g) (replicate 1 True @ replicate (n + 1) False) Map.empty
              (if SingleSize g + 1 > SingleSize g then SingleSize g else SingleSize g + 1)
            = Inr (True, ?child0, replicate (Suc n) True @ replicate 1 False, Map.empty)"
    using c0 by (simp del: Allocate.simps replicate.simps upt.simps)
  have t0: "AllocateChildren g (SingleSize g) 0 (SingleSize g + 1) ?hdr0
              (replicate (n + 2) False) Map.empty
          = AllocateChildren g (SingleSize g) 1 1
              (?hdr0\<lparr>dataSectors := (dataSectors ?hdr0)[0 := 0]\<rparr>)
              (replicate (Suc n) True @ replicate 1 False) [0 \<mapsto> ?child0]"
    using AllocateChildren_step [OF _ p0(1) f0 a0] lad(1)
    by (simp del: replicate.simps upt.simps Allocate.simps AllocateChildren.simps)
  \<comment> \<open>second turn: the pool is exhausted by the header of the child\<close>
  let ?hdr1 = "?hdr0\<lparr>dataSectors := (dataSectors ?hdr0)[0 := 0]\<rparr>"
  have f1: "FindAndSet (replicate (Suc n) True @ replicate 1 False)
              = (int n + 1, replicate (n + 2) True)"
    using FindAndSet_prefix [of "Suc n" 0] by simp
  have c1: "Allocate g (newFileHeader g) (replicate (n + 2) True) [0 \<mapsto> ?child0] 1
              = Inr (False, ?child1, replicate (n + 2) True, [0 \<mapsto> ?child0])"
    by (subst Allocate.simps) (simp add: r2 Let_def del: Allocate.simps replicate.simps)
  have a1: "Allocate g (newFileHeader g) (replicate (n + 2) True) [0 \<mapsto> ?child0]
              (if 1 > SingleSize g then SingleSize g else 1)
              = Inr (False, ?child1, replicate (n + 2) True, [0 \<mapsto> ?child0])"
    using c1 two by (simp del: Allocate.simps replicate.simps upt.simps)
  have p1: "1 < length (dataSectors ?hdr1)" using p0(2) by simp
  have t1: "AllocateChildren g (SingleSize g) 1 1 ?hdr1
              (replicate (Suc n) True @ replicate 1 False) [0 \<mapsto> ?child0]
          = AllocateChildren g (SingleSize g) 2 (1 - SingleSize g)
              (?hdr1\<lparr>dataSectors := (dataSectors ?hdr1)[1 := int n + 1]\<rparr>)
              (replicate (n + 2) True) [0 \<mapsto> ?child0, int n + 1 \<mapsto> ?child1]"
  proof -
    have pos: "0 < (1::int)" and nn: "0 \<le> int n + 1" by simp_all
    from AllocateChildren_step [OF pos p1 f1 a1 nn] show ?thesis
      by (simp only: one_add_one)
  qed
  \<comment> \<open>the loop ends\<close>
  let ?hdr2 = "?hdr1\<lparr>dataSectors := (dataSectors ?hdr1)[1 := int n + 1]\<rparr>"
  have t2: "AllocateChildren g (SingleSize g) 2 (1 - SingleSize g) ?hdr2
              (replicate (n + 2) True) [0 \<mapsto> ?child0, int n + 1 \<mapsto> ?child1]
          = Inr (?hdr2, replicate (n + 2) True, [0 \<mapsto> ?child0, int n + 1 \<mapsto> ?child1])"
    using two by (intro AllocateChildren_done) simp
  have ds: "(replicate n (- 1 :: int))[0 := 0, 1 := int n + 1] = [0, int n + 1] @ replicate (n - 2) (- 1)"
  proof -
    from N(2) have "n = Suc (Suc (n - 2))" by simp
    then obtain m where m: "n = Suc (Suc m)" ..
    show ?thesis by (simp add: m)
  qed
  have h2: "?hdr2 = \<lparr>numBytes = SingleSize g + 1, numSectors = int n + 1,
             dataSectors = [0, int n + 1] @ replicate (n - 2) (- 1)\<rparr>"
    using ds by (simp add: newFileHeader_def n_def [symmetric])
  have loop: "AllocateChildren g (SingleSize g) 0 (SingleSize g + 1) ?hdr0
              (replicate (n + 2) False) Map.empty
          = Inr (?hdr2, replicate (n + 2) True, [0 \<mapsto> ?child0, int n + 1 \<mapsto> ?child1])"
    unfolding t0 t1 t2 ..
  have "Allocate g (newFileHeader g) (replicate (n + 2) False) Map.empty (SingleSize g + 1)
          = Inr (True, ?hdr2, replicate (n + 2) True, [0 \<mapsto> ?child0, int n + 1 \<mapsto> ?child1])"
    using loop dbl lad(5)
    by (intro Allocate_single_band) (simp_all add: r1 del: AllocateChildren.simps replicate.simps)
  then show ?thesis unfolding h2 .
qed


lemma DeallocateChildren_step:
  assumes "int i < sectors" and "i < length (dataSectors hdr)"
    and "FetchFrom dsk (dataSectors hdr ! i) = Inr child"
    and "Deallocate fuel g dsk child freeMap = Some (Inr poolB)"
  shows "DeallocateChildren fuel g dsk hdr i sectors freeMap =
           DeallocateChildren fuel g dsk hdr (i + 1) sectors poolB"
  using assms
  by (subst DeallocateChildren.simps) (simp del: Deallocate.simps DeallocateChildren.simps)

lemma Deallocate_leaf:
  assumes "\<not> numBytes hdr > SingleSize g"
  shows "Deallocate (Suc fuel) g dsk hdr freeMap = Some (DeallocateDirect hdr 0 freeMap)"
  using assms by simp

text \<open>
  The same file allocated from a pool with room for everything (\<open>NumDirect + 3\<close> free
  sectors and \<open>x\<close> more), and deallocated again.
\<close>

lemma Allocate_one_over:
  assumes g: "0 < SectorSize g" "2 \<le> NumDirect g"
  defines "n \<equiv> nat (NumDirect g)"
  shows "Allocate g (newFileHeader g) (replicate (n + 3 + x) False) Map.empty (SingleSize g + 1) =
     Inr (True,
          \<lparr>numBytes = SingleSize g + 1, numSectors = int n + 1,
             dataSectors = [0, int n + 1] @ replicate (n - 2) (- 1)\<rparr>,
          replicate (n + 3) True @ replicate x False,
          [0 \<mapsto> \<lparr>numBytes = SingleSize g, numSectors = int n, dataSectors = map int [1..<1 + n]\<rparr>,
           int n + 1 \<mapsto> \<lparr>numBytes = 1, numSectors = 1,
                          dataSectors = map int [n + 2..<n + 2 + 1] @ replicate (n - 1) (- 1)\<rparr>])"
proof -
  have g0: "0 < NumDirect g" using g by simp
  have N: "NumDirect g = int n" "2 \<le> n" using g by (simp_all add: n_def)
  note lad = ladder_pos [OF g(1) g0]
  have S1: "SingleSize g = int n * SectorSize g" by (simp add: SingleSize_def N)
  have two: "2 \<le> SingleSize g"
    using mult_mono [of 2 "int n" 1 "SectorSize g"] g N unfolding S1 by simp
  have "2 * SingleSize g \<le> NumDirect g * SingleSize g"
    using g two by (intro mult_right_mono) simp_all
  then have dbl: "SingleSize g + 1 \<le> DoubleSize g"
    using two unfolding DoubleSize_def by linarith
  have r0: "divRoundUp (SingleSize g) (SectorSize g) = int n"
    unfolding S1 using g(1) by (rule divRoundUp_mult)
  have r1: "divRoundUp (SingleSize g + 1) (SectorSize g) = int n + 1"
    unfolding S1 using g(1) by (rule divRoundUp_mult_Suc)
  have r2: "divRoundUp 1 (SectorSize g) = int 1" using divRoundUp_one [OF g(1)] by simp
  let ?hdr0 = "(newFileHeader g)\<lparr>numBytes := SingleSize g + 1, numSectors := int n + 1\<rparr>"
  let ?child0 = "\<lparr>numBytes = SingleSize g, numSectors = int n, dataSectors = map int [1..<1 + n]\<rparr>"
  let ?child1 = "\<lparr>numBytes = 1, numSectors = 1,
                   dataSectors = map int [n + 2..<n + 2 + 1] @ replicate (n - 1) (- 1)\<rparr>"
  have len: "length (dataSectors ?hdr0) = n" by (simp add: newFileHeader_def n_def)
  have p0: "0 < length (dataSectors ?hdr0)" "1 < length (dataSectors ?hdr0)"
    using len N by simp_all
  \<comment> \<open>first turn\<close>
  have f0: "FindAndSet (replicate (n + 3 + x) False)
              = (0, replicate 1 True @ replicate (n + 2 + x) False)"
  proof -
    have e: "Suc (n + 2 + x) = n + 3 + x" by simp
    from FindAndSet_prefix [of 0 "n + 2 + x"] show ?thesis
      by (simp only: replicate_0 append_Nil e of_nat_0 One_nat_def [symmetric])
  qed
  have c0: "Allocate g (newFileHeader g) (replicate 1 True @ replicate (n + 2 + x) False) Map.empty
              (SingleSize g)
            = Inr (True, ?child0, replicate (Suc n) True @ replicate (2 + x) False, Map.empty)"
    using Allocate_leaf_prefix [OF g(1) g0 _ _ r0, of "n + 2 + x" 1 Map.empty] lad(1) N
    by (simp del: replicate.simps upt.simps)
  have a0: "Allocate g (newFileHeader g) (replicate 1 True @ replicate (n + 2 + x) False) Map.empty
              (if SingleSize g + 1 > SingleSize g then SingleSize g else SingleSize g + 1)
            = Inr (True, ?child0, replicate (Suc n) True @ replicate (2 + x) False, Map.empty)"
    using c0 by (simp del: Allocate.simps replicate.simps upt.simps)
  have t0: "AllocateChildren g (SingleSize g) 0 (SingleSize g + 1) ?hdr0
              (replicate (n + 3 + x) False) Map.empty
          = AllocateChildren g (SingleSize g) 1 1
              (?hdr0\<lparr>dataSectors := (dataSectors ?hdr0)[0 := 0]\<rparr>)
              (replicate (Suc n) True @ replicate (2 + x) False) [0 \<mapsto> ?child0]"
    using AllocateChildren_step [OF _ p0(1) f0 a0] lad(1)
    by (simp del: replicate.simps upt.simps Allocate.simps AllocateChildren.simps)
  \<comment> \<open>second turn\<close>
  let ?hdr1 = "?hdr0\<lparr>dataSectors := (dataSectors ?hdr0)[0 := 0]\<rparr>"
  have f1: "FindAndSet (replicate (Suc n) True @ replicate (2 + x) False)
              = (int n + 1, replicate (n + 2) True @ replicate (1 + x) False)"
  proof -
    have e: "Suc (1 + x) = 2 + x" "int (Suc n) = int n + 1" "Suc (Suc n) = n + 2" by simp_all
    from FindAndSet_prefix [of "Suc n" "1 + x"] show ?thesis
      by (simp only: e)
  qed
  have one: "(1::int) \<le> SingleSize g" "(0::int) \<le> 1" using two by simp_all
  have c1: "Allocate g (newFileHeader g) (replicate (n + 2) True @ replicate (1 + x) False)
              [0 \<mapsto> ?child0] 1
              = Inr (True, ?child1, replicate (n + 2 + 1) True @ replicate (1 + x - 1) False,
                     [0 \<mapsto> ?child0])"
    using Allocate_leaf_prefix [OF g(1) g0 one(2,1) r2, of "1 + x" "n + 2" "[0 \<mapsto> ?child0]"] N
    by (simp del: replicate.simps upt.simps Allocate.simps)
  have a1: "Allocate g (newFileHeader g) (replicate (n + 2) True @ replicate (1 + x) False)
              [0 \<mapsto> ?child0] (if 1 > SingleSize g then SingleSize g else 1)
              = Inr (True, ?child1, replicate (n + 3) True @ replicate x False, [0 \<mapsto> ?child0])"
    using c1 two
    by (simp add: numeral_3_eq_3 del: Allocate.simps replicate.simps upt.simps)
  have p1: "1 < length (dataSectors ?hdr1)" using p0(2) by simp
  have t1: "AllocateChildren g (SingleSize g) 1 1 ?hdr1
              (replicate (Suc n) True @ replicate (2 + x) False) [0 \<mapsto> ?child0]
          = AllocateChildren g (SingleSize g) 2 (1 - SingleSize g)
              (?hdr1\<lparr>dataSectors := (dataSectors ?hdr1)[1 := int n + 1]\<rparr>)
              (replicate (n + 3) True @ replicate x False)
              [0 \<mapsto> ?child0, int n + 1 \<mapsto> ?child1]"
  proof -
    have pos: "0 < (1::int)" and nn: "0 \<le> int n + 1" by simp_all
    from AllocateChildren_step [OF pos p1 f1 a1 nn] show ?thesis
      by (simp only: one_add_one)
  qed
  \<comment> \<open>the loop ends\<close>
  let ?hdr2 = "?hdr1\<lparr>dataSectors := (dataSectors ?hdr1)[1 := int n + 1]\<rparr>"
  have t2: "AllocateChildren g (SingleSize g) 2 (1 - SingleSize g) ?hdr2
              (replicate (n + 3) True @ replicate x False)
              [0 \<mapsto> ?child0, int n + 1 \<mapsto> ?child1]
          = Inr (?hdr2, replicate (n + 3) True @ replicate x False,
                 [0 \<mapsto> ?child0, int n + 1 \<mapsto> ?child1])"
    using two by (intro AllocateChildren_done) simp
  have ds: "(replicate n (- 1 :: int))[0 := 0, 1 := int n + 1] = [0, int n + 1] @ replicate (n - 2) (- 1)"
  proof -
    from N(2) have "n = Suc (Suc (n - 2))" by simp
    then obtain m where m: "n = Suc (Suc m)" ..
    show ?thesis by (simp add: m)
  qed
  have h2: "?hdr2 = \<lparr>numBytes = SingleSize g + 1, numSectors = int n + 1,
             dataSectors = [0, int n + 1] @ replicate (n - 2) (- 1)\<rparr>"
    using ds by (simp add: newFileHeader_def n_def [symmetric])
  have loop: "AllocateChildren g (SingleSize g) 0 (SingleSize g + 1) ?hdr0
              (replicate (n + 3 + x) False) Map.empty
          = Inr (?hdr2, replicate (n + 3) True @ replicate x False,
                 [0 \<mapsto> ?child0, int n + 1 \<mapsto> ?child1])"
    unfolding t0 t1 t2 ..
  have "Allocate g (newFileHeader g) (replicate (n + 3 + x) False) Map.empty (SingleSize g + 1)
          = Inr (True, ?hdr2, replicate (n + 3) True @ replicate x False,
                 [0 \<mapsto> ?child0, int n + 1 \<mapsto> ?child1])"
    using loop dbl lad(5)
    by (intro Allocate_single_band) (simp_all add: r1 del: AllocateChildren.simps replicate.simps)
  then show ?thesis unfolding h2 .
qed


lemma Deallocate_one_over:
  assumes g: "0 < SectorSize g" "2 \<le> NumDirect g"
  defines "n \<equiv> nat (NumDirect g)"
  shows "Deallocate (Suc (Suc fuel)) g
     [0 \<mapsto> \<lparr>numBytes = SingleSize g, numSectors = int n, dataSectors = map int [1..<1 + n]\<rparr>,
      int n + 1 \<mapsto> \<lparr>numBytes = 1, numSectors = 1,
                     dataSectors = map int [n + 2..<n + 2 + 1] @ replicate (n - 1) (- 1)\<rparr>]
     \<lparr>numBytes = SingleSize g + 1, numSectors = int n + 1,
        dataSectors = [0, int n + 1] @ replicate (n - 2) (- 1)\<rparr>
     (replicate (n + 3) True @ replicate x False)
   = Some (Inr ([True] @ replicate n False @ [True, False] @ replicate x False))"
proof -
  have N: "NumDirect g = int n" "2 \<le> n" using g by (simp_all add: n_def)
  have g0: "0 < NumDirect g" using g by simp
  note lad = ladder_pos [OF g(1) g0]
  have S1: "SingleSize g = int n * SectorSize g" by (simp add: SingleSize_def N)
  have two: "2 \<le> SingleSize g"
    using mult_mono [of 2 "int n" 1 "SectorSize g"] g N unfolding S1 by simp
  let ?child0 = "\<lparr>numBytes = SingleSize g, numSectors = int n, dataSectors = map int [1..<1 + n]\<rparr>"
  let ?child1 = "\<lparr>numBytes = 1, numSectors = 1,
                   dataSectors = map int [n + 2..<n + 2 + 1] @ replicate (n - 1) (- 1)\<rparr>"
  let ?dsk = "[0 \<mapsto> ?child0, int n + 1 \<mapsto> ?child1]"
  let ?hdr = "\<lparr>numBytes = SingleSize g + 1, numSectors = int n + 1,
        dataSectors = [0, int n + 1] @ replicate (n - 2) (- 1)\<rparr>"
  let ?pool0 = "replicate (n + 3) True @ replicate x False"
  let ?pool1 = "[True] @ replicate n False @ replicate 2 True @ replicate x False"
  let ?pool2 = "[True] @ replicate n False @ [True, False] @ replicate x False"
  have bound: "divRoundUp (numSectors ?hdr) (NumDirect g) = 2"
    using divRoundUp_mult_Suc [of "int n" 1] N by simp
  have len: "length (dataSectors ?hdr) = n" using N by simp
  \<comment> \<open>the first child\<close>
  have e0: "?pool0 = [True] @ replicate n True @ (replicate 2 True @ replicate x False)"
  proof -
    have a: "n + 3 = 1 + (n + 2)" by simp
    have "replicate (n + 3) True = replicate 1 True @ replicate n True @ replicate 2 True"
      unfolding a replicate_add ..
    then show ?thesis by simp
  qed
  have d0: "DeallocateDirect ?child0 0 ([True] @ replicate n True @ (replicate 2 True @ replicate x False))
              = Inr ([True] @ replicate n False @ (replicate 2 True @ replicate x False))"
    by (rule DeallocateDirect_range [where pre = "[]" and a = 1 and post = "[]"]) simp_all
  have c0: "Deallocate (Suc fuel) g ?dsk ?child0 ?pool0 = Some (Inr ?pool1)"
    unfolding e0 using d0
    by (subst Deallocate_leaf) (simp_all del: DeallocateDirect.simps replicate.simps upt.simps)
  have fetch0: "FetchFrom ?dsk (dataSectors ?hdr ! 0) = Inr ?child0"
    by (simp add: FetchFrom_def)
  have s0: "DeallocateChildren (Suc fuel) g ?dsk ?hdr 0 2 ?pool0
              = DeallocateChildren (Suc fuel) g ?dsk ?hdr 1 2 ?pool1"
    using DeallocateChildren_step [OF _ _ fetch0 c0, of 2] len N
    by (simp del: Deallocate.simps DeallocateChildren.simps replicate.simps upt.simps)
  \<comment> \<open>the second child\<close>
  have e1: "?pool1 = ([True] @ replicate n False @ [True]) @ replicate 1 True @ replicate x False"
    by (simp add: numeral_2_eq_2)
  have d1: "DeallocateDirect ?child1 0
              (([True] @ replicate n False @ [True]) @ replicate 1 True @ replicate x False)
              = Inr (([True] @ replicate n False @ [True]) @ replicate 1 False @ replicate x False)"
    by (rule DeallocateDirect_range [where pre = "[]" and a = "n + 2"
                                       and post = "replicate (n - 1) (- 1)"]) simp_all
  have leaf1: "\<not> numBytes ?child1 > SingleSize g" using two by simp
  have c1: "Deallocate (Suc fuel) g ?dsk ?child1 ?pool1 = Some (Inr ?pool2)"
    unfolding e1 Deallocate_leaf [OF leaf1] d1 by simp
  have fetch1: "FetchFrom ?dsk (dataSectors ?hdr ! 1) = Inr ?child1"
    by (simp add: FetchFrom_def)
  have s1: "DeallocateChildren (Suc fuel) g ?dsk ?hdr 1 2 ?pool1
              = DeallocateChildren (Suc fuel) g ?dsk ?hdr 2 2 ?pool2"
  proof -
    have lt: "int 1 < 2" "1 < length (dataSectors ?hdr)" using len N by simp_all
    from DeallocateChildren_step [OF lt fetch1 c1] show ?thesis
      by (simp only: one_add_one)
  qed
  have s2: "DeallocateChildren (Suc fuel) g ?dsk ?hdr 2 2 ?pool2 = Some (Inr ?pool2)"
    by (subst DeallocateChildren.simps) simp
  have top: "Deallocate (Suc (Suc fuel)) g ?dsk ?hdr ?pool0
               = DeallocateChildren (Suc fuel) g ?dsk ?hdr 0 2 ?pool0"
    using bound by (simp del: DeallocateChildren.simps Deallocate.simps(2) replicate.simps
                         add: Deallocate.simps(2) [of "Suc fuel"])
  show ?thesis unfolding top s0 s1 s2 ..
qed


subsection \<open>The claims about file headers\<close>

text \<open>
  Claim C1 (round trip). The claim: for every size \<open>S \<ge> 0\<close> and every pool in which
  \<open>Allocate\<close> succeeds, \<open>Allocate\<close> on a fresh header followed by \<open>Deallocate\<close> leaves
  the number of clear bits as it was. The code does not do this above \<open>SingleSize\<close>:
  \<open>Deallocate\<close> returns the data sectors but never clears the sectors that hold the
  child headers. For every geometry with at least two entries per header, a file
  of \<open>SingleSize + 1\<close> bytes allocated from an empty pool with room for all of it
  (\<open>NumDirect + 1\<close> data sectors and 2 child headers, and \<open>x\<close> sectors more) and
  deallocated again leaves two sectors fewer free than before. With 128-byte
  sectors, 30 entries per header and 40 free sectors: a file of 3841 bytes, and 38
  sectors free afterwards.
\<close>

theorem Allocate_Deallocate_leaks_child_headers:
  assumes "0 < SectorSize g" and "2 \<le> NumDirect g"
  shows "\<exists>hdr freeMap dsk freeMap'.
           Allocate g (newFileHeader g) (replicate (nat (NumDirect g) + 3 + x) False) Map.empty
             (SingleSize g + 1) = Inr (True, hdr, freeMap, dsk) \<and>
           Deallocate (Suc (Suc fuel)) g dsk hdr freeMap = Some (Inr freeMap') \<and>
           NumClear freeMap' = NumClear (replicate (nat (NumDirect g) + 3 + x) False) - 2"
proof -
  let ?n = "nat (NumDirect g)"
  have "NumClear ([True] @ replicate ?n False @ [True, False] @ replicate x False)
          = NumClear (replicate (?n + 3 + x) False) - 2"
    by (simp add: NumClear_def)
  with Allocate_one_over [OF assms, of x] Deallocate_one_over [OF assms, of fuel x]
  show ?thesis by blast
qed

theorem Allocate_Deallocate_leaks_child_headers_witness:
  "0 < SectorSize stockGeometry \<and> 2 \<le> NumDirect stockGeometry \<and>
   (\<exists>hdr freeMap dsk freeMap'.
       Allocate stockGeometry (newFileHeader stockGeometry) (replicate 40 False) Map.empty 3841
         = Inr (True, hdr, freeMap, dsk) \<and>
       Deallocate 2 stockGeometry dsk hdr freeMap = Some (Inr freeMap') \<and>
       NumClear (replicate 40 False) = 40 \<and> NumClear freeMap' = 38)"
proof -
  have g: "0 < SectorSize stockGeometry" "2 \<le> NumDirect stockGeometry" by simp_all
  have e: "nat (NumDirect stockGeometry) + 3 + 7 = 40" "SingleSize stockGeometry + 1 = 3841"
    "Suc (Suc 0) = 2"
    by (simp_all add: SingleSize_def)
  have c: "NumClear (replicate 40 False) = 40" by (simp add: NumClear_def)
  from Allocate_Deallocate_leaks_child_headers [OF g, of 7 0, unfolded e c] g c
  show ?thesis by (simp del: Allocate.simps Deallocate.simps replicate.simps)
qed



text \<open>
  Claim C3 (a failed child allocation fails the whole call). The code does not do
  this: the result of the child's \<open>Allocate\<close> is dropped and the parent returns
  \<open>TRUE\<close> (lemma \<open>Allocate_result\<close>). For every geometry with at least two entries per
  header, a file of \<open>SingleSize + 1\<close> bytes and a pool of exactly \<open>NumDirect + 2\<close> free
  sectors: the test on entry passes (\<open>NumDirect + 1\<close> data sectors are needed), the
  first child takes \<open>1 + NumDirect\<close> sectors, the second child gets the last sector
  for its header and its \<open>Allocate\<close> returns \<open>FALSE\<close> for lack of a data sector. The
  parent returns \<open>TRUE\<close>, and the child header on disk records one sector of data
  that was never taken (its entry is still \<open>-1\<close>). With 128-byte sectors and 30
  entries per header: 32 free sectors and a file of 3841 bytes.
\<close>

theorem Allocate_ignores_child_failure:
  assumes "0 < SectorSize g" and "2 \<le> NumDirect g"
  shows "\<exists>hdr dsk child.
           Allocate g (newFileHeader g) (replicate (nat (NumDirect g) + 2) False) Map.empty
             (SingleSize g + 1)
             = Inr (True, hdr, replicate (nat (NumDirect g) + 2) True, dsk) \<and>
           sectorAt hdr 1 = Inr (NumDirect g + 1) \<and>
           FetchFrom dsk (NumDirect g + 1) = Inr child \<and>
           numBytes child = 1 \<and> numSectors child = 1 \<and> sectorAt child 0 = Inr (- 1) \<and>
           (\<forall>d. Allocate g (newFileHeader g) (replicate (nat (NumDirect g) + 2) True) d 1
                  = Inr (False, child, replicate (nat (NumDirect g) + 2) True, d))"
proof -
  let ?n = "nat (NumDirect g)"
  have N: "NumDirect g = int ?n" "2 \<le> ?n" using assms by simp_all
  let ?hdr = "\<lparr>numBytes = SingleSize g + 1, numSectors = int ?n + 1,
               dataSectors = [0, int ?n + 1] @ replicate (?n - 2) (- 1)\<rparr>"
  let ?first = "\<lparr>numBytes = SingleSize g, numSectors = int ?n, dataSectors = map int [1..<1 + ?n]\<rparr>"
  let ?second = "(newFileHeader g)\<lparr>numBytes := 1, numSectors := 1\<rparr>"
  let ?dsk = "[0 \<mapsto> ?first, int ?n + 1 \<mapsto> ?second]"
  have run: "Allocate g (newFileHeader g) (replicate (?n + 2) False) Map.empty (SingleSize g + 1)
               = Inr (True, ?hdr, replicate (?n + 2) True, ?dsk)"
    by (rule Allocate_one_over_short [OF assms])
  have at: "sectorAt ?hdr 1 = Inr (NumDirect g + 1)"
    using N by (simp add: sectorAt_def)
  have fetch: "FetchFrom ?dsk (NumDirect g + 1) = Inr ?second"
    using N by (simp add: FetchFrom_def)
  have child: "numBytes ?second = 1" "numSectors ?second = 1" "sectorAt ?second 0 = Inr (- 1)"
    using N by (simp_all add: sectorAt_def newFileHeader_def)
  have fail: "Allocate g (newFileHeader g) (replicate (?n + 2) True) d 1
                = Inr (False, ?second, replicate (?n + 2) True, d)" for d
    using divRoundUp_one [OF assms(1)]
    by (subst Allocate.simps) (simp add: Let_def del: Allocate.simps replicate.simps)
  from run at fetch child fail show ?thesis by blast
qed

theorem Allocate_ignores_child_failure_witness:
  "0 < SectorSize stockGeometry \<and> 2 \<le> NumDirect stockGeometry \<and>
   (\<exists>hdr dsk child.
       Allocate stockGeometry (newFileHeader stockGeometry) (replicate 32 False) Map.empty 3841
         = Inr (True, hdr, replicate 32 True, dsk) \<and>
       sectorAt hdr 1 = Inr 31 \<and> FetchFrom dsk 31 = Inr child \<and>
       numBytes child = 1 \<and> numSectors child = 1 \<and> sectorAt child 0 = Inr (- 1) \<and>
       (\<forall>d. Allocate stockGeometry (newFileHeader stockGeometry) (replicate 32 True) d 1
              = Inr (False, child, replicate 32 True, d)))"
proof -
  have g: "0 < SectorSize stockGeometry" "2 \<le> NumDirect stockGeometry" by simp_all
  have e: "nat (NumDirect stockGeometry) + 2 = 32" "SingleSize stockGeometry + 1 = 3841"
    "NumDirect stockGeometry + 1 = 31"
    by (simp_all add: SingleSize_def)
  from Allocate_ignores_child_failure [OF g, unfolded e] g
  show ?thesis by (simp del: Allocate.simps replicate.simps)
qed

text \<open>
  Claim C4 (the bound of \<open>Deallocate\<close> against the children written). The claim: in
  every interior band the bound \<open>divRoundUp(numSectors, NumDirect)\<close> of the loop in
  \<open>Deallocate\<close> is the number of child headers that \<open>Allocate\<close> wrote. In the Single
  band it is (lemma \<open>Deallocate_bound_single_band\<close>). For every size above
  \<open>DoubleSize\<close> it is not: \<open>Allocate\<close> writes \<open>divRoundUp(fileSize, DoubleSize)\<close> or
  \<open>divRoundUp(fileSize, TripleSize)\<close> children, at most \<open>NumDirect\<close>, while the bound is
  \<open>divRoundUp(fileSize, SingleSize)\<close>, which is more than \<open>NumDirect\<close>; \<open>Deallocate\<close>
  walks past the children and past the array and never returns a bitmap. With
  128-byte sectors and 30 entries, a file of 115201 bytes has 2 children and the
  bound is 31.
\<close>

theorem Deallocate_bound_above_double:
  assumes g: "0 < SectorSize g" "0 < NumDirect g"
    and big: "DoubleSize g < fileSize"
    and run: "Allocate g (newFileHeader g) freeMap dsk fileSize = Inr (True, hdr, freeMap', dsk')"
  shows "int (length (filter (\<lambda>s. 0 \<le> s) (dataSectors hdr)))
             = divRoundUp fileSize (childSpan g fileSize) \<and>
         int (length (filter (\<lambda>s. 0 \<le> s) (dataSectors hdr))) \<le> NumDirect g \<and>
         NumDirect g < divRoundUp (numSectors hdr) (NumDirect g) \<and>
         (\<forall>fuel freeMap''. Deallocate fuel g dsk' hdr freeMap' \<noteq> Some (Inr freeMap''))"
proof -
  have single: "SingleSize g < fileSize" using big ladder_pos(4) [OF g] by simp
  note a = Allocate_interior [OF g single run]
  have c: "0 < childSpan g fileSize" using ladder_pos(1,2,3) [OF g] by (simp add: childSpan_def)
  have pos: "0 < divRoundUp fileSize (childSpan g fileSize)"
    using c single ladder_pos(1) [OF g] by (intro divRoundUp_pos) simp_all
  have count: "int (length (filter (\<lambda>s. 0 \<le> s) (dataSectors hdr)))
             = divRoundUp fileSize (childSpan g fileSize)"
    using a pos by simp
  have "int (length (filter (\<lambda>s. 0 \<le> s) (dataSectors hdr))) \<le> int (length (dataSectors hdr))"
    by simp
  also have "\<dots> = NumDirect g" using a g by simp
  finally have cap: "int (length (filter (\<lambda>s. 0 \<le> s) (dataSectors hdr))) \<le> NumDirect g" .
  have "NumDirect g * (NumDirect g * SectorSize g) < fileSize"
    using big by (simp add: DoubleSize_def SingleSize_def)
  then have "NumDirect g < divRoundUp fileSize (NumDirect g * SectorSize g)"
    using g by (intro divRoundUp_greater) simp_all
  then have bound: "NumDirect g < divRoundUp (numSectors hdr) (NumDirect g)"
    using a g by (simp add: divRoundUp_twice)
  have never: "Deallocate fuel g dsk' hdr freeMap' \<noteq> Some (Inr freeMap'')" for fuel freeMap''
  proof (cases fuel)
    case 0
    then show ?thesis by simp
  next
    case (Suc n)
    have len: "int (length (dataSectors hdr)) < divRoundUp (numSectors hdr) (NumDirect g)"
      using a bound g by simp
    from DeallocateChildren_overrun [OF len, of 0] Suc a single show ?thesis by simp
  qed
  from count cap bound never show ?thesis by blast
qed

lemma small_double_band_run:
  "(case Allocate smallGeometry (newFileHeader smallGeometry) (replicate 12 False) Map.empty 65 of
      Inl e \<Rightarrow> False
    | Inr (ok, hdr, freeMap, dsk) \<Rightarrow>
        ok \<and> length (filter (\<lambda>s. 0 \<le> s) (dataSectors hdr)) = 2 \<and> numSectors hdr = 5 \<and>
        Deallocate 3 smallGeometry dsk hdr freeMap = Some (Inl OutOfBounds))"
  by code_simp

theorem Deallocate_bound_above_double_witness:
  "0 < SectorSize smallGeometry \<and> 0 < NumDirect smallGeometry \<and> DoubleSize smallGeometry < 65 \<and>
   (\<exists>hdr freeMap' dsk'.
      Allocate smallGeometry (newFileHeader smallGeometry) (replicate 12 False) Map.empty 65
        = Inr (True, hdr, freeMap', dsk') \<and>
      length (filter (\<lambda>s. 0 \<le> s) (dataSectors hdr)) = 2 \<and>
      divRoundUp (numSectors hdr) (NumDirect smallGeometry) = 3 \<and>
      NumDirect smallGeometry < divRoundUp (numSectors hdr) (NumDirect smallGeometry) \<and>
      Deallocate 3 smallGeometry dsk' hdr freeMap' = Some (Inl OutOfBounds) \<and>
      (\<forall>fuel freeMap''. Deallocate fuel smallGeometry dsk' hdr freeMap' \<noteq> Some (Inr freeMap'')))"
proof -
  have g: "0 < SectorSize smallGeometry" "0 < NumDirect smallGeometry" by simp_all
  have big: "DoubleSize smallGeometry < 65" by (simp add: DoubleSize_def SingleSize_def)
  from small_double_band_run obtain hdr freeMap' dsk' where
    run: "Allocate smallGeometry (newFileHeader smallGeometry) (replicate 12 False) Map.empty 65
            = Inr (True, hdr, freeMap', dsk')"
    and ev: "length (filter (\<lambda>s. 0 \<le> s) (dataSectors hdr)) = 2" "numSectors hdr = 5"
      "Deallocate 3 smallGeometry dsk' hdr freeMap' = Some (Inl OutOfBounds)"
    by (auto simp del: Allocate.simps replicate.simps split: sum.splits prod.splits)
  have b: "divRoundUp (numSectors hdr) (NumDirect smallGeometry) = 3"
    using ev(2) by (simp add: divRoundUp_def cdiv_def crem_def)
  from Deallocate_bound_above_double [OF g big run] g big run ev b show ?thesis
    by (intro conjI exI [of _ hdr] exI [of _ freeMap'] exI [of _ dsk']) simp_all
qed

text \<open>
  Claim C5 (coverage). The claim: after a successful \<open>Allocate\<close>, \<open>ByteToSector\<close> gives
  a valid sector for every offset below the size. The code does not do this when a
  child allocation failed and \<open>Allocate\<close> returned \<open>TRUE\<close> all the same (the defect
  of claim C3): in the state of that example the offset \<open>SingleSize\<close>, the last byte
  of the file, maps to \<open>-1\<close>. With 128-byte sectors and 30 entries per header:
  offset 3840 of a file of 3841 bytes.
\<close>

theorem ByteToSector_after_Allocate_invalid:
  assumes "0 < SectorSize g" and "2 \<le> NumDirect g"
  shows "\<exists>hdr freeMap dsk.
           Allocate g (newFileHeader g) (replicate (nat (NumDirect g) + 2) False) Map.empty
             (SingleSize g + 1) = Inr (True, hdr, freeMap, dsk) \<and>
           0 \<le> SingleSize g \<and> SingleSize g < numBytes hdr \<and>
           ByteToSector (Suc (Suc fuel)) g dsk hdr (SingleSize g) = Some (Inr (- 1))"
proof -
  let ?n = "nat (NumDirect g)"
  have N: "NumDirect g = int ?n" "2 \<le> ?n" using assms by simp_all
  have g0: "0 < NumDirect g" using assms by simp
  note lad = ladder_pos [OF assms(1) g0]
  have S1: "SingleSize g = int ?n * SectorSize g" using N by (simp add: SingleSize_def)
  have two: "2 \<le> SingleSize g"
    using mult_mono [of 2 "int ?n" 1 "SectorSize g"] assms N unfolding S1 by simp
  have "2 * SingleSize g \<le> NumDirect g * SingleSize g"
    using assms two by (intro mult_right_mono) simp_all
  then have dbl: "SingleSize g + 1 \<le> DoubleSize g"
    using two unfolding DoubleSize_def by linarith
  let ?hdr = "\<lparr>numBytes = SingleSize g + 1, numSectors = int ?n + 1,
               dataSectors = [0, int ?n + 1] @ replicate (?n - 2) (- 1)\<rparr>"
  let ?first = "\<lparr>numBytes = SingleSize g, numSectors = int ?n, dataSectors = map int [1..<1 + ?n]\<rparr>"
  let ?second = "(newFileHeader g)\<lparr>numBytes := 1, numSectors := 1\<rparr>"
  let ?dsk = "[0 \<mapsto> ?first, int ?n + 1 \<mapsto> ?second]"
  have run: "Allocate g (newFileHeader g) (replicate (?n + 2) False) Map.empty (SingleSize g + 1)
               = Inr (True, ?hdr, replicate (?n + 2) True, ?dsk)"
    by (rule Allocate_one_over_short [OF assms])
  have q: "divRoundDown (SingleSize g) (SingleSize g) = 1"
    using lad(1) by (simp add: divRoundDown_def cdiv_def)
  have at: "sectorAt ?hdr 1 = Inr (int ?n + 1)" using N by (simp add: sectorAt_def)
  have fetch: "FetchFrom ?dsk (int ?n + 1) = Inr ?second" by (simp add: FetchFrom_def)
  have leaf: "ByteToSector (Suc fuel) g ?dsk ?second 0 = Some (Inr (- 1))"
    using two lad(4,5) N assms(1)
    by (simp add: sectorAt_def cdiv_def newFileHeader_def)
  have "ByteToSector (Suc (Suc fuel)) g ?dsk ?hdr (SingleSize g) = Some (Inr (- 1))"
    using dbl lad(5) q at fetch leaf
    by (simp add: Let_def del: ByteToSector.simps(2) add: ByteToSector.simps(2) [of "Suc fuel"])
  with run lad(1) show ?thesis by fastforce
qed

theorem ByteToSector_after_Allocate_invalid_witness:
  "0 < SectorSize stockGeometry \<and> 2 \<le> NumDirect stockGeometry \<and>
   (\<exists>hdr freeMap dsk.
       Allocate stockGeometry (newFileHeader stockGeometry) (replicate 32 False) Map.empty 3841
         = Inr (True, hdr, freeMap, dsk) \<and>
       (0::int) \<le> 3840 \<and> 3840 < numBytes hdr \<and>
       ByteToSector 2 stockGeometry dsk hdr 3840 = Some (Inr (- 1)))"
proof -
  have g: "0 < SectorSize stockGeometry" "2 \<le> NumDirect stockGeometry" by simp_all
  have e: "nat (NumDirect stockGeometry) + 2 = 32" "SingleSize stockGeometry + 1 = 3841"
    "SingleSize stockGeometry = 3840" "Suc (Suc 0) = 2"
    by (simp_all add: SingleSize_def)
  from ByteToSector_after_Allocate_invalid [OF g, of 0, unfolded e] g
  show ?thesis by (simp del: Allocate.simps ByteToSector.simps replicate.simps)
qed

section \<open>The scheduler\<close>

subsection \<open>ReadyToRun\<close>

lemma set_Insert [simp]: "set (Insert cmp x xs) = insert x (set xs)"
  by (induction xs) auto

text \<open>Admission of a thread of the L1 band, with the assertion and the band tests resolved.\<close>

lemma ReadyToRun_L1:
  assumes "level k = IntOff" and "100 \<le> priority (threads k thread)"
  shows "ReadyToRun k thread =
     (let k2 = setWaitTime thread (totalTicks k) (setStatus thread READY k);
          k3 = k2\<lparr>L1Q := Insert (cmpBurstTime (threads k2)) thread (L1Q k)\<rparr>;
          cur = threads k3 (currentThread k)
      in if ID (threads k thread) \<noteq> ID cur \<and> ID cur \<noteq> 0 then
            (if priority cur \<ge> 100 then
               (if burstTime (threads k thread)
                     < truncToInt (0.5 * real_of_int (burstTime cur)
                                   + 0.5 * real_of_int (totalTicks k - burstStart cur))
                then Inr (Preempt k3) else Inr k3)
             else Inr (Preempt k3))
         else Inr k3)"
  using assms
  by (simp add: ReadyToRun_def Let_def setStatus_def setWaitTime_def)

lemma less_truncToInt: "b < truncToInt x \<Longrightarrow> real_of_int b < x"
  by (auto simp: truncToInt_def less_floor_iff less_ceiling_iff split: if_splits)

text \<open>
  Claim C6 (approximate shortest-remaining-time-first). The claim: with the running
  thread in the L1 band, not idle and distinct from the admitted L1 thread, a
  preemption is requested exactly when the admitted burst estimate is strictly
  smaller than \<open>0.5 * lastEstimate + 0.5 * (now - burstStart)\<close>. The code compares
  with that value truncated to an integer, so the claim fails where the value is
  not whole: with estimate 3 after 2 ticks the value is 2.5, an admitted estimate
  of 2 is strictly smaller, and no preemption is requested.
\<close>

theorem ReadyToRun_L1_srtf_counterexample:
  "(let k = mkKernel ((\<lambda>a. mkThread 0 0 0 0 0)(1 := mkThread 1 120 3 0 0, 2 := mkThread 2 110 2 0 0))
              1 2 [] [] []
    in level k = IntOff \<and> 100 \<le> priority (threads k 2)
       \<and> ID (threads k 2) \<noteq> ID (threads k (currentThread k))
       \<and> ID (threads k (currentThread k)) \<noteq> 0
       \<and> 100 \<le> priority (threads k (currentThread k))
       \<and> real_of_int (burstTime (threads k 2))
            < 0.5 * real_of_int (burstTime (threads k (currentThread k)))
              + 0.5 * real_of_int (totalTicks k - burstStart (threads k (currentThread k)))
       \<and> (case ReadyToRun k 2 of Inl e \<Rightarrow> False | Inr k' \<Rightarrow> preempts k' = preempts k))"
  by (simp add: mkKernel_def mkThread_def ReadyToRun_def Let_def setStatus_def setWaitTime_def
        truncToInt_def cmpBurstTime_def Preempt_def)

text \<open>
  Claim C6 as amended: under the same conditions \<open>ReadyToRun\<close> returns, and it
  requests a preemption (once) exactly when the admitted burst estimate is strictly
  smaller than the running thread's recomputed estimate truncated toward zero to an
  integer; so it requests one only if the admitted estimate is strictly smaller
  than the recomputed estimate itself, and none when it is larger or equal.
\<close>

theorem ReadyToRun_L1_srtf:
  assumes "level k = IntOff"
    and "100 \<le> priority (threads k thread)"
    and "ID (threads k thread) \<noteq> ID (threads k (currentThread k))"
    and "ID (threads k (currentThread k)) \<noteq> 0"
    and "100 \<le> priority (threads k (currentThread k))"
  shows "\<exists>k'. ReadyToRun k thread = Inr k' \<and>
           preempts k' =
             (if burstTime (threads k thread)
                   < truncToInt (0.5 * real_of_int (burstTime (threads k (currentThread k)))
                       + 0.5 * real_of_int (totalTicks k - burstStart (threads k (currentThread k))))
              then Suc (preempts k) else preempts k) \<and>
           (preempts k' \<noteq> preempts k \<longrightarrow>
              real_of_int (burstTime (threads k thread))
                < 0.5 * real_of_int (burstTime (threads k (currentThread k)))
                  + 0.5 * real_of_int (totalTicks k - burstStart (threads k (currentThread k))))"
proof -
  from assms(3) have ne: "thread \<noteq> currentThread k" by auto
  show ?thesis
    using assms ne less_truncToInt
    by (simp add: ReadyToRun_L1 Let_def setStatus_def setWaitTime_def Preempt_def)
qed

theorem ReadyToRun_L1_srtf_witness:
  "(let k = mkKernel ((\<lambda>a. mkThread 0 0 0 0 0)(1 := mkThread 1 120 9 0 0, 2 := mkThread 2 110 4 0 0))
              1 2 [] [] []
    in level k = IntOff \<and> 100 \<le> priority (threads k 2)
       \<and> ID (threads k 2) \<noteq> ID (threads k (currentThread k))
       \<and> ID (threads k (currentThread k)) \<noteq> 0
       \<and> 100 \<le> priority (threads k (currentThread k))
       \<and> burstTime (threads k 2)
            < truncToInt (0.5 * real_of_int (burstTime (threads k (currentThread k)))
                + 0.5 * real_of_int (totalTicks k - burstStart (threads k (currentThread k))))
       \<and> real_of_int (burstTime (threads k 2))
            < 0.5 * real_of_int (burstTime (threads k (currentThread k)))
              + 0.5 * real_of_int (totalTicks k - burstStart (threads k (currentThread k)))
       \<and> (\<exists>k'. ReadyToRun k 2 = Inr k' \<and> preempts k' = Suc (preempts k)))"
proof -
  define k where
    "k = mkKernel ((\<lambda>a. mkThread 0 0 0 0 0)(1 := mkThread 1 120 9 0 0, 2 := mkThread 2 110 4 0 0))
           1 2 [] [] []"
  have h: "level k = IntOff" "100 \<le> priority (threads k 2)"
     "ID (threads k 2) \<noteq> ID (threads k (currentThread k))"
     "ID (threads k (currentThread k)) \<noteq> 0"
     "100 \<le> priority (threads k (currentThread k))"
    by (simp_all add: k_def mkKernel_def mkThread_def)
  have lt: "burstTime (threads k 2)
            < truncToInt (0.5 * real_of_int (burstTime (threads k (currentThread k)))
                + 0.5 * real_of_int (totalTicks k - burstStart (threads k (currentThread k))))"
    by (simp add: k_def mkKernel_def mkThread_def truncToInt_def)
  from ReadyToRun_L1_srtf [OF h] lt obtain k' where
    r: "ReadyToRun k 2 = Inr k'" "preempts k' = Suc (preempts k)"
    and "real_of_int (burstTime (threads k 2))
            < 0.5 * real_of_int (burstTime (threads k (currentThread k)))
              + 0.5 * real_of_int (totalTicks k - burstStart (threads k (currentThread k)))"
    by auto
  with h lt show ?thesis
    unfolding Let_def k_def [symmetric] by simp
qed

text \<open>
  Claim C10 (L1 admission over a running thread below the L1 band). When a thread
  of the L1 band is admitted, its identity differs from the running thread's, the
  running thread is not the idle thread and its priority is below 100 (be it in
  the L2 band or below 50), \<open>ReadyToRun\<close> requests a preemption without looking
  at the burst estimates.
\<close>

theorem ReadyToRun_L1_lower_band:
  assumes "level k = IntOff"
    and "100 \<le> priority (threads k thread)"
    and "ID (threads k thread) \<noteq> ID (threads k (currentThread k))"
    and "ID (threads k (currentThread k)) \<noteq> 0"
    and "priority (threads k (currentThread k)) < 100"
  shows "\<exists>k'. ReadyToRun k thread = Inr k' \<and> preempts k' = Suc (preempts k)
            \<and> thread \<in> set (L1Q k')"
proof -
  from assms(3) have ne: "thread \<noteq> currentThread k" by auto
  show ?thesis
    using assms ne
    by (simp add: ReadyToRun_L1 Let_def setStatus_def setWaitTime_def Preempt_def)
qed

theorem ReadyToRun_L1_lower_band_witness:
  "(let k = mkKernel ((\<lambda>a. mkThread 0 0 0 0 0)(1 := mkThread 1 30 7 0 0, 2 := mkThread 2 120 900 0 0))
              1 10 [] [] []
    in level k = IntOff \<and> 100 \<le> priority (threads k 2)
       \<and> ID (threads k 2) \<noteq> ID (threads k (currentThread k))
       \<and> ID (threads k (currentThread k)) \<noteq> 0
       \<and> priority (threads k (currentThread k)) < 100
       \<and> (\<exists>k'. ReadyToRun k 2 = Inr k' \<and> preempts k' = Suc (preempts k) \<and> 2 \<in> set (L1Q k')))"
proof -
  define k where
    "k = mkKernel ((\<lambda>a. mkThread 0 0 0 0 0)(1 := mkThread 1 30 7 0 0, 2 := mkThread 2 120 900 0 0))
           1 10 [] [] []"
  have h: "level k = IntOff" "100 \<le> priority (threads k 2)"
     "ID (threads k 2) \<noteq> ID (threads k (currentThread k))"
     "ID (threads k (currentThread k)) \<noteq> 0"
     "priority (threads k (currentThread k)) < 100"
    by (simp_all add: k_def mkKernel_def mkThread_def)
  from ReadyToRun_L1_lower_band [OF h] h show ?thesis
    unfolding Let_def k_def [symmetric] by simp
qed

subsection \<open>FindNextToRun\<close>

text \<open>
  Claim C7 (strict priority dispatch). \<open>FindNextToRun\<close> returns and removes the head
  of L1 if L1 is not empty, otherwise the head of L2, otherwise the head of L3, and
  otherwise returns no thread and leaves the state as it is.
\<close>

theorem FindNextToRun_strict_priority:
  assumes "level k = IntOff"
  shows "(L1Q k \<noteq> [] \<longrightarrow>
            FindNextToRun k = Inr (Some (hd (L1Q k)), k\<lparr>L1Q := tl (L1Q k)\<rparr>)) \<and>
         (L1Q k = [] \<and> L2Q k \<noteq> [] \<longrightarrow>
            FindNextToRun k = Inr (Some (hd (L2Q k)), k\<lparr>L2Q := tl (L2Q k)\<rparr>)) \<and>
         (L1Q k = [] \<and> L2Q k = [] \<and> L3Q k \<noteq> [] \<longrightarrow>
            FindNextToRun k = Inr (Some (hd (L3Q k)), k\<lparr>L3Q := tl (L3Q k)\<rparr>)) \<and>
         (L1Q k = [] \<and> L2Q k = [] \<and> L3Q k = [] \<longrightarrow> FindNextToRun k = Inr (None, k))"
  using assms by (simp add: FindNextToRun_def)

theorem FindNextToRun_strict_priority_witness:
  "FindNextToRun (mkKernel (\<lambda>a. mkThread 0 0 0 0 0) 0 0 [4, 5] [6] [7]) =
     Inr (Some 4, mkKernel (\<lambda>a. mkThread 0 0 0 0 0) 0 0 [5] [6] [7]) \<and>
   FindNextToRun (mkKernel (\<lambda>a. mkThread 0 0 0 0 0) 0 0 [] [6] [7]) =
     Inr (Some 6, mkKernel (\<lambda>a. mkThread 0 0 0 0 0) 0 0 [] [] [7]) \<and>
   FindNextToRun (mkKernel (\<lambda>a. mkThread 0 0 0 0 0) 0 0 [] [] [7, 8]) =
     Inr (Some 7, mkKernel (\<lambda>a. mkThread 0 0 0 0 0) 0 0 [] [] [8]) \<and>
   FindNextToRun (mkKernel (\<lambda>a. mkThread 0 0 0 0 0) 0 0 [] [] []) =
     Inr (None, mkKernel (\<lambda>a. mkThread 0 0 0 0 0) 0 0 [] [] [])"
  using FindNextToRun_strict_priority [of "mkKernel (\<lambda>a. mkThread 0 0 0 0 0) 0 0 [4, 5] [6] [7]"]
    FindNextToRun_strict_priority [of "mkKernel (\<lambda>a. mkThread 0 0 0 0 0) 0 0 [] [6] [7]"]
    FindNextToRun_strict_priority [of "mkKernel (\<lambda>a. mkThread 0 0 0 0 0) 0 0 [] [] [7, 8]"]
    FindNextToRun_strict_priority [of "mkKernel (\<lambda>a. mkThread 0 0 0 0 0) 0 0 [] [] []"]
  by (simp add: mkKernel_def)

subsection \<open>Aging\<close>

lemma AgingL1_frame:
  "L1Q (AgingL1 ticks ts k) = L1Q k \<and> L2Q (AgingL1 ticks ts k) = L2Q k \<and>
   L3Q (AgingL1 ticks ts k) = L3Q k \<and> level (AgingL1 ticks ts k) = level k \<and>
   totalTicks (AgingL1 ticks ts k) = totalTicks k"
  by (induction ts arbitrary: k) (simp_all add: Let_def setPriority_def setWaitTime_def)

lemma AgingL1_threads:
  "threads (AgingL1 ticks ts k) t =
     (if t \<in> set ts \<and> ticks - waitTime (threads k t) > 1500 then aged (threads k t) ticks
      else threads k t)"
  by (induction ts arbitrary: k) (auto simp: Let_def setPriority_def setWaitTime_def aged_def)

lemma ReadyToRun_effect:
  assumes "level k = IntOff"
  shows "\<exists>k'. ReadyToRun k t = Inr k' \<and>
     threads k' = (threads k)(t := (threads k t)\<lparr>status := READY, waitTime := totalTicks k\<rparr>) \<and>
     level k' = IntOff \<and> totalTicks k' = totalTicks k \<and>
     L1Q k' = (if 100 \<le> priority (threads k t)
               then Insert (cmpBurstTime (threads k')) t (L1Q k) else L1Q k) \<and>
     L2Q k' = (if 50 \<le> priority (threads k t) \<and> priority (threads k t) < 100
               then Insert (cmpPriority (threads k')) t (L2Q k) else L2Q k) \<and>
     L3Q k' = (if priority (threads k t) < 50 then L3Q k @ [t] else L3Q k)"
  using assms
  by (simp add: ReadyToRun_def Let_def setStatus_def setWaitTime_def Preempt_def)



lemma elementsAfter_Insert:
  "t \<notin> set q \<Longrightarrow> \<exists>n. elementsAfter t (Insert cmp t q) = drop n q"
proof (induction q)
  case Nil
  then show ?case by simp
next
  case (Cons y ys)
  show ?case
  proof (cases "cmp t y < 0")
    case True
    then have "elementsAfter t (Insert cmp t (y # ys)) = drop 0 (y # ys)" by simp
    then show ?thesis by blast
  next
    case False
    from Cons obtain n where "elementsAfter t (Insert cmp t ys) = drop n ys" by auto
    with False Cons.prems have "elementsAfter t (Insert cmp t (y # ys)) = drop (Suc n) (y # ys)"
      by simp
    then show ?thesis by blast
  qed
qed

lemma AgingL2_pass:
  "\<forall>u \<in> set pre. \<not> ticks - waitTime (threads k u) > 1500 \<Longrightarrow>
   AgingL2 (length pre + fuel) ticks (pre @ ts) k = AgingL2 fuel ticks ts k"
  by (induction pre) simp_all

lemma AgingL2_idle:
  assumes "\<forall>u \<in> set ts. \<not> ticks - waitTime (threads k u) > 1500" and "length ts \<le> fuel"
  shows "AgingL2 fuel ticks ts k = Some (Inr k)"
proof -
  from assms(2) obtain d where "fuel = length ts + d" using le_Suc_ex by blast
  with AgingL2_pass [OF assms(1), of d "[]"] show ?thesis by simp
qed

text \<open>
  Claim C8 (aging). The claim: every thread of L1 or L2 that has waited more than
  1500 ticks gets the priority \<open>min (old + 10) 149\<close> and the current tick as its wait
  time, and such a thread of L2 is taken out of L2 and admitted again. The first
  loop does this for the threads of L1, in place (lemma \<open>AgingL1_threads\<close>). The
  second loop does not reach every thread of L2. After it has removed a thread and
  admitted it again, it advances the iterator from the element it removed. When
  the thread has gone to L1 (its priority was 90 or more), the iterator goes on
  behind it in L1, where no thread is over the threshold any more, and the loop
  ends there: the threads that followed in L2 are never looked at.

  For every state with interrupts off in which the first thread of L2 over the
  threshold has a priority of 90 or more, \<open>Aging\<close> returns (given one turn for each
  thread before it in L2, one for the thread and one for each thread of L1), the
  threads of L1 over the threshold are promoted in place, the thread is promoted
  into L1, and every other thread of L2 keeps its priority and its wait time,
  however long it has waited. At tick 2000 with L1 holding thread 4 (priority 120,
  waiting since 100) and L2 holding threads 7 (priority 97, waiting since 500), 5
  (priority 95, waiting since 0) and 6 (priority 60, waiting since 100): thread 4
  gets priority 130, thread 7 has waited 1500 ticks and is rightly left alone,
  thread 5 goes to L1 with priority 105, and thread 6, 1900 ticks in the queue,
  still has priority 60 and wait time 100.
\<close>

theorem Aging_skips_after_promotion:
  assumes "level k = IntOff"
    and "L2Q k = pre @ t # rest"
    and "\<forall>u \<in> set pre. \<not> totalTicks k - waitTime (threads k u) > 1500"
    and "t \<notin> set pre" and "t \<notin> set rest" and "t \<notin> set (L1Q k)"
    and "totalTicks k - waitTime (threads k t) > 1500"
    and "90 \<le> priority (threads k t)"
    and "length pre + length (L1Q k) < fuel"
  shows "\<exists>k'. Aging fuel k = Some (Inr k') \<and>
           (\<forall>u \<in> set (L1Q k). totalTicks k - waitTime (threads k u) > 1500 \<longrightarrow>
              priority (threads k' u) = min (priority (threads k u) + 10) 149 \<and>
              waitTime (threads k' u) = totalTicks k) \<and>
           priority (threads k' t) = min (priority (threads k t) + 10) 149 \<and>
           waitTime (threads k' t) = totalTicks k \<and>
           L1Q k' = Insert (cmpBurstTime (threads k)) t (L1Q k) \<and> L2Q k' = pre @ rest \<and>
           (\<forall>u \<in> set pre \<union> set rest. u \<notin> set (L1Q k) \<longrightarrow> threads k' u = threads k u)"
proof -
  define ticks where "ticks = totalTicks k"
  define k1 where "k1 = AgingL1 ticks (L1Q k) k"
  define p where "p = min (priority (threads k t) + 10) 149"
  have fr: "L1Q k1 = L1Q k" "L2Q k1 = pre @ t # rest" "level k1 = IntOff" "totalTicks k1 = ticks"
    using AgingL1_frame [of ticks "L1Q k" k] assms(1,2) by (simp_all add: k1_def ticks_def)
  have th1: "\<And>x. threads k1 x =
      (if x \<in> set (L1Q k) \<and> ticks - waitTime (threads k x) > 1500 then aged (threads k x) ticks
       else threads k x)"
    unfolding k1_def by (rule AgingL1_threads)
  have bt1: "burstTime (threads k1 x) = burstTime (threads k x)" for x
    using th1 [of x] by (simp add: aged_def)
  have t1: "threads k1 t = threads k t" using th1 [of t] assms(6) by simp
  have over: "ticks - waitTime (threads k1 t) > 1500" using t1 assms(7) by (simp add: ticks_def)
  have p100: "100 \<le> p" using assms(8) by (simp add: p_def)
  have calm: "\<forall>u \<in> set pre. \<not> ticks - waitTime (threads k1 u) > 1500"
    using assms(3) th1 by (simp add: ticks_def aged_def)
  define k3 where "k3 = setWaitTime t ticks (setPriority t p (k1\<lparr>L2Q := remove1 t (L2Q k1)\<rparr>))"
  have rm: "remove1 t (pre @ t # rest) = pre @ rest"
    using assms(4) by (simp add: remove1_append)
  have k3: "level k3 = IntOff" "totalTicks k3 = ticks" "L1Q k3 = L1Q k" "L2Q k3 = pre @ rest"
    "priority (threads k3 t) = p" "\<And>x. x \<noteq> t \<Longrightarrow> threads k3 x = threads k1 x"
    "burstTime (threads k3 t) = burstTime (threads k1 t)"
    using fr rm by (simp_all add: k3_def setWaitTime_def setPriority_def)
  from ReadyToRun_effect [OF k3(1), of t] obtain k4 where
    k4: "ReadyToRun k3 t = Inr k4"
      "threads k4 = (threads k3)(t := (threads k3 t)\<lparr>status := READY, waitTime := totalTicks k3\<rparr>)"
      "L1Q k4 = (if 100 \<le> priority (threads k3 t)
               then Insert (cmpBurstTime (threads k4)) t (L1Q k3) else L1Q k3)"
      "L2Q k4 = (if 50 \<le> priority (threads k3 t) \<and> priority (threads k3 t) < 100
               then Insert (cmpPriority (threads k4)) t (L2Q k3) else L2Q k3)"
    by blast
  have other: "threads k4 x = threads k1 x" if "x \<noteq> t" for x
    using that k4(2) k3(6) by simp
  have "burstTime (threads k4 x) = burstTime (threads k x)" for x
    using k4(2) k3(6,7) bt1 by (cases "x = t") simp_all
  then have cmp: "cmpBurstTime (threads k4) = cmpBurstTime (threads k)"
    by (simp add: cmpBurstTime_def fun_eq_iff)
  have q1: "L1Q k4 = Insert (cmpBurstTime (threads k)) t (L1Q k)"
    using k4(3) k3(3,5) p100 cmp by simp
  have q2: "L2Q k4 = pre @ rest" using k4(4) k3(4,5) p100 by simp
  have band: "bandQueue k4 p = L1Q k4" using p100 by (simp add: bandQueue_def)
  from elementsAfter_Insert [OF assms(6)] obtain n where
    n: "elementsAfter t (L1Q k4) = drop n (L1Q k)"
    unfolding q1 by blast
  have idle: "\<forall>u \<in> set (drop n (L1Q k)). \<not> ticks - waitTime (threads k4 u) > 1500"
  proof
    fix u assume "u \<in> set (drop n (L1Q k))"
    then have u: "u \<in> set (L1Q k)" by (rule in_set_dropD)
    with assms(6) have "u \<noteq> t" by auto
    then have "threads k4 u = threads k1 u" by (rule other)
    with th1 [of u] u show "\<not> ticks - waitTime (threads k4 u) > 1500"
      by (simp add: aged_def split: if_splits)
  qed
  define f where "f = fuel - length pre - 1"
  have f: "fuel = length pre + Suc f" "length (drop n (L1Q k)) \<le> f"
    using assms(9) by (simp_all add: f_def)
  have "AgingL2 fuel ticks (pre @ t # rest) k1 = AgingL2 (Suc f) ticks (t # rest) k1"
    unfolding f(1) by (rule AgingL2_pass [OF calm])
  also have "\<dots> = AgingL2 f ticks (elementsAfter t (bandQueue k4 p)) k4"
    using over k4(1) t1 by (simp add: Let_def k3_def p_def)
  also have "\<dots> = Some (Inr k4)"
    unfolding band n by (rule AgingL2_idle [OF idle f(2)])
  finally have run: "Aging fuel k = Some (Inr k4)"
    using assms(2) by (simp add: Aging_def Let_def k1_def ticks_def)
  have pr: "priority (threads k4 t) = p" "waitTime (threads k4 t) = totalTicks k"
    using k4(2) k3(2,5) by (simp_all add: ticks_def)
  have first: "\<forall>u \<in> set (L1Q k). totalTicks k - waitTime (threads k u) > 1500 \<longrightarrow>
              priority (threads k4 u) = min (priority (threads k u) + 10) 149 \<and>
              waitTime (threads k4 u) = totalTicks k"
  proof (intro ballI impI)
    fix u assume u: "u \<in> set (L1Q k)" "totalTicks k - waitTime (threads k u) > 1500"
    with assms(6) have "u \<noteq> t" by auto
    then have "threads k4 u = threads k1 u" by (rule other)
    with th1 [of u] u
    show "priority (threads k4 u) = min (priority (threads k u) + 10) 149 \<and>
          waitTime (threads k4 u) = totalTicks k"
      by (simp add: aged_def ticks_def)
  qed
  have keep: "\<forall>u \<in> set pre \<union> set rest. u \<notin> set (L1Q k) \<longrightarrow> threads k4 u = threads k u"
  proof (intro ballI impI)
    fix u assume "u \<in> set pre \<union> set rest" "u \<notin> set (L1Q k)"
    with assms(4,5) have "u \<noteq> t" by auto
    then have "threads k4 u = threads k1 u" by (rule other)
    with th1 [of u] \<open>u \<notin> set (L1Q k)\<close> show "threads k4 u = threads k u" by simp
  qed
  from run first pr q1 q2 keep show ?thesis unfolding p_def by blast
qed

theorem Aging_skips_after_promotion_witness:
  "(let k = mkKernel ((\<lambda>a. mkThread 0 0 0 0 0)
                (4 := mkReady 4 120 5 100, 5 := mkReady 5 95 5 0, 6 := mkReady 6 60 5 100,
                 7 := mkReady 7 97 5 500))
              0 2000 [4] [7, 5, 6] []
    in level k = IntOff \<and> L2Q k = [7] @ 5 # [6]
       \<and> \<not> totalTicks k - waitTime (threads k 7) > 1500
       \<and> 5 \<notin> set (L1Q k) \<and> totalTicks k - waitTime (threads k 5) > 1500
       \<and> 90 \<le> priority (threads k 5) \<and> length [7::addr] + length (L1Q k) < 3
       \<and> 4 \<in> set (L1Q k) \<and> totalTicks k - waitTime (threads k 4) > 1500
       \<and> 6 \<notin> set (L1Q k) \<and> totalTicks k - waitTime (threads k 6) > 1500
       \<and> (\<exists>k'. Aging 3 k = Some (Inr k')
             \<and> priority (threads k' 4) = 130 \<and> waitTime (threads k' 4) = 2000
             \<and> priority (threads k' 5) = 105 \<and> waitTime (threads k' 5) = 2000
             \<and> L1Q k' = [4, 5] \<and> L2Q k' = [7, 6]
             \<and> priority (threads k' 7) = 97 \<and> waitTime (threads k' 7) = 500
             \<and> priority (threads k' 6) = 60 \<and> waitTime (threads k' 6) = 100))"
proof -
  define k where
    "k = mkKernel ((\<lambda>a. mkThread 0 0 0 0 0)
                (4 := mkReady 4 120 5 100, 5 := mkReady 5 95 5 0, 6 := mkReady 6 60 5 100,
                 7 := mkReady 7 97 5 500))
              0 2000 [4] [7, 5, 6] []"
  have q: "level k = IntOff" "L1Q k = [4]" "L2Q k = [7, 5, 6]" "totalTicks k = 2000"
    "threads k 4 = mkReady 4 120 5 100" "threads k 5 = mkReady 5 95 5 0"
    "threads k 6 = mkReady 6 60 5 100" "threads k 7 = mkReady 7 97 5 500"
    by (simp_all add: k_def mkKernel_def)
  have h: "L2Q k = [7] @ 5 # [6]"
    "\<forall>u \<in> set [7]. \<not> totalTicks k - waitTime (threads k u) > 1500"
    "(5::addr) \<notin> set [7]" "(5::addr) \<notin> set [6]" "5 \<notin> set (L1Q k)"
    "totalTicks k - waitTime (threads k 5) > 1500" "90 \<le> priority (threads k 5)"
    "length [7::addr] + length (L1Q k) < 3"
    by (simp_all add: q mkReady_def mkThread_def)
  from Aging_skips_after_promotion [OF q(1) h] obtain k' where
    r: "Aging 3 k = Some (Inr k')"
      "\<forall>u \<in> set (L1Q k). totalTicks k - waitTime (threads k u) > 1500 \<longrightarrow>
              priority (threads k' u) = min (priority (threads k u) + 10) 149 \<and>
              waitTime (threads k' u) = totalTicks k"
      "priority (threads k' 5) = min (priority (threads k 5) + 10) 149"
      "waitTime (threads k' 5) = totalTicks k"
      "L1Q k' = Insert (cmpBurstTime (threads k)) 5 (L1Q k)" "L2Q k' = [7] @ [6]"
      "\<forall>u \<in> set [7] \<union> set [6]. u \<notin> set (L1Q k) \<longrightarrow> threads k' u = threads k u"
    by blast
  have a: "priority (threads k' 4) = 130 \<and> waitTime (threads k' 4) = 2000"
    using r(2) [rule_format, of 4] by (simp add: q mkReady_def mkThread_def)
  have b: "priority (threads k' 5) = 105 \<and> waitTime (threads k' 5) = 2000"
    using r(3,4) by (simp add: q mkReady_def mkThread_def)
  have c: "L1Q k' = [4, 5]" using r(5) by (simp add: q cmpBurstTime_def mkReady_def mkThread_def)
  have d: "L2Q k' = [7, 6]" using r(6) by simp
  have e: "priority (threads k' 7) = 97 \<and> waitTime (threads k' 7) = 500"
    using r(7) [rule_format, of 7] by (simp add: q mkReady_def mkThread_def)
  have f: "priority (threads k' 6) = 60 \<and> waitTime (threads k' 6) = 100"
    using r(7) [rule_format, of 6] by (simp add: q mkReady_def mkThread_def)
  have pre: "\<not> totalTicks k - waitTime (threads k 7) > 1500
       \<and> 4 \<in> set (L1Q k) \<and> totalTicks k - waitTime (threads k 4) > 1500
       \<and> 6 \<notin> set (L1Q k) \<and> totalTicks k - waitTime (threads k 6) > 1500"
    by (simp add: q mkReady_def mkThread_def)
  from q(1) h(5,6,7,8) r(1) a b c d e f pre show ?thesis
    unfolding Let_def k_def [symmetric] by (simp add: q)
qed

subsection \<open>Run\<close>

text \<open>
  Claim C9 (\<open>Run\<close> on the running thread). When the next thread has the identity of
  the running thread, \<open>Run\<close> returns at once with the state as it was: nothing is
  marked for destruction even when \<open>finishing\<close> is set, no burst estimate or burst
  start is written, and the current thread stays. (With interrupts enabled the
  assertion before the test stops the kernel.)
\<close>

theorem Run_same_thread:
  assumes "ID (threads k (currentThread k)) = ID (threads k nextThread)"
  shows "Run k nextThread finishing = (if level k = IntOff then Inr k else Inl AssertionFailed)"
  using assms by (simp add: Run_def Let_def)

theorem Run_same_thread_witness:
  "(let k = mkKernel ((\<lambda>a. mkThread 0 0 0 0 0)(1 := mkThread 1 120 9 0 0)) 1 50 [] [] []
    in ID (threads k (currentThread k)) = ID (threads k 1) \<and> Run k 1 True = Inr k
       \<and> toBeDestroyed k = None)"
proof -
  define k where
    "k = mkKernel ((\<lambda>a. mkThread 0 0 0 0 0)(1 := mkThread 1 120 9 0 0)) 1 50 [] [] []"
  have h: "ID (threads k (currentThread k)) = ID (threads k 1)"
    by (simp add: k_def mkKernel_def)
  have l: "level k = IntOff" "toBeDestroyed k = None"
    by (simp_all add: k_def mkKernel_def)
  from Run_same_thread [OF h, of True] h l show ?thesis
    unfolding Let_def k_def [symmetric] by simp
qed

end
